theory Spec2Isabelle
  imports Complex_Main "HOL-Library.Word" "HOL-Library.Monad_Syntax"
begin

section \<open>Climate analysis (climate.c): a shallow embedding\<close>

text \<open>
  The program reads tab-delimited observation files line by line (\<^verbatim>\<open>fgets\<close>), decomposes every
  line with one \<^verbatim>\<open>sscanf\<close> call, validates three ranges, finds or creates the accumulator of the
  line's state code in a table of \<^verbatim>\<open>NUM_STATES\<close> pointers, folds the observation into it, and
  finally prints a report. The embedding follows the source function by function.

  Conventions of the model:
  \<^item> a C string is a \<open>string\<close> of bytes; a buffer is read up to its first NUL byte (\<open>c_str\<close>);
  \<^item> \<^verbatim>\<open>double\<close> and \<^verbatim>\<open>long double\<close> values are \<open>cdouble\<close>: a finite value, the two
    infinities or NaN, compared the way C compares them (every comparison with NaN is false).
    Finite arithmetic is exact: the rounding of the binary formats is not part of the model;
  \<^item> \<^verbatim>\<open>unsigned long long\<close> and \<^verbatim>\<open>time_t\<close> are \<open>64 word\<close>. The record counters
    (\<^verbatim>\<open>unsigned long\<close>), \<^verbatim>\<open>lines_processed\<close> and \<^verbatim>\<open>files_processed\<close> (\<^verbatim>\<open>int\<close>) go up by one
    per line or file read and are \<open>nat\<close> and \<open>int\<close>: a run that makes one of them overflow
    (more than \<open>2^31 - 1\<close> folded lines in one file) is outside the model;
  \<^item> \<^verbatim>\<open>calloc\<close> is served from a heap budget: the number of accumulators the heap can still
    hold. Nothing is freed before the report, so an exhausted heap stays exhausted;
  \<^item> the table \<^verbatim>\<open>states\<close> with its length \<^verbatim>\<open>num_states\<close> is a list of optional
    accumulators, \<open>None\<close> being the NULL pointer.
\<close>

subsection \<open>Constants and characters\<close>

definition NUM_STATES :: nat where
  "NUM_STATES = 50"

definition LINE_BUFFER :: nat where
  "LINE_BUFFER = 100"

definition EXIT_SUCCESS :: int where
  "EXIT_SUCCESS = 0"

definition EXIT_FAILURE :: int where
  "EXIT_FAILURE = 1"

definition TAB :: char where
  "TAB = CHR 0x09"

definition NL :: char where
  "NL = CHR 0x0A"

definition NUL :: char where
  "NUL = CHR 0x00"

definition isspace :: "char \<Rightarrow> bool" where
  \<comment> \<open>the C locale: space, and the controls HT, LF, VT, FF, CR\<close>
  "isspace c = (c = CHR 0x20 \<or> (9 \<le> (of_char c :: nat) \<and> (of_char c :: nat) \<le> 13))"

definition isdigit :: "char \<Rightarrow> bool" where
  "isdigit c = (48 \<le> (of_char c :: nat) \<and> (of_char c :: nat) \<le> 57)"

definition tolower :: "char \<Rightarrow> char" where
  "tolower c = (if 65 \<le> (of_char c :: nat) \<and> (of_char c :: nat) \<le> 90
                then char_of ((of_char c :: nat) + 32) else c)"

definition c_str :: "string \<Rightarrow> string" where
  \<comment> \<open>the C string held by a buffer: the bytes before the first NUL\<close>
  "c_str buf = takeWhile (\<lambda>c. c \<noteq> NUL) buf"

definition strlen :: "string \<Rightarrow> nat" where
  "strlen buf = length (c_str buf)"

subsection \<open>Floating-point values\<close>

datatype cdouble = NaN | NInf | Fin rat | PInf

fun dless :: "cdouble \<Rightarrow> cdouble \<Rightarrow> bool" where
  \<comment> \<open>C's \<^verbatim>\<open><\<close>; \<^verbatim>\<open>a > b\<close> is \<open>dless b a\<close>\<close>
  "dless NaN _ = False"
| "dless _ NaN = False"
| "dless NInf NInf = False"
| "dless NInf _ = True"
| "dless _ NInf = False"
| "dless PInf _ = False"
| "dless (Fin a) (Fin b) = (a < b)"
| "dless (Fin a) PInf = True"

fun dneg :: "cdouble \<Rightarrow> cdouble" where
  "dneg NaN = NaN"
| "dneg NInf = PInf"
| "dneg (Fin a) = Fin (- a)"
| "dneg PInf = NInf"

fun dadd :: "cdouble \<Rightarrow> cdouble \<Rightarrow> cdouble" where
  "dadd NaN _ = NaN"
| "dadd _ NaN = NaN"
| "dadd PInf NInf = NaN"
| "dadd NInf PInf = NaN"
| "dadd PInf _ = PInf"
| "dadd _ PInf = PInf"
| "dadd NInf _ = NInf"
| "dadd _ NInf = NInf"
| "dadd (Fin a) (Fin b) = Fin (a + b)"

definition dsub :: "cdouble \<Rightarrow> cdouble \<Rightarrow> cdouble" where
  "dsub a b = dadd a (dneg b)"

fun dmul :: "cdouble \<Rightarrow> cdouble \<Rightarrow> cdouble" where
  "dmul NaN _ = NaN"
| "dmul _ NaN = NaN"
| "dmul (Fin a) (Fin b) = Fin (a * b)"
| "dmul (Fin a) y = (if a = 0 then NaN else if a < 0 then dneg y else y)"
| "dmul x (Fin b) = (if b = 0 then NaN else if b < 0 then dneg x else x)"
| "dmul x y = (if x = y then PInf else NInf)"

fun ddiv :: "cdouble \<Rightarrow> cdouble \<Rightarrow> cdouble" where
  \<comment> \<open>a zero divisor is taken as +0: signed zeros are not part of the model\<close>
  "ddiv NaN _ = NaN"
| "ddiv _ NaN = NaN"
| "ddiv (Fin a) (Fin b) =
     (if b = 0 then (if a = 0 then NaN else if a < 0 then NInf else PInf) else Fin (a / b))"
| "ddiv (Fin a) y = Fin 0"
| "ddiv x (Fin b) = (if b < 0 then dneg x else x)"
| "ddiv x y = NaN"

definition DBL_MAX :: cdouble where
  "DBL_MAX = Fin ((2 ^ 53 - 1) * 2 ^ 971)"

subsection \<open>The accumulator and the locals of one line\<close>

record climate_info =
  code :: string
  num_records :: nat
  sum_temperature :: cdouble
  sum_humidity :: cdouble
  sum_cloudcover :: cdouble
  lightning_strikes :: nat
  snow_records :: nat
  max_temp_time :: "64 word"
  min_temp_time :: "64 word"
  max_temp :: cdouble
  min_temp :: cdouble

text \<open>The nine variables that \<^verbatim>\<open>sscanf\<close> fills in \<^verbatim>\<open>analyze_file\<close>.\<close>

record observation =
  state_code :: string
  timestamp :: "64 word"
  geohash :: string
  humidity :: cdouble
  snow :: cdouble
  cloudcover :: cdouble
  lightning :: cdouble
  pressure :: cdouble
  temperature :: cdouble

subsection \<open>The conversions of \<^verbatim>\<open>sscanf\<close>\<close>

text \<open>
  The format is \<^verbatim>\<open>"%2s\t%llu\t%12s\t%lf\t%lf\t%lf\t%lf\t%lf\t%lf"\<close>. A white-space directive
  skips any amount of white space, also none; \<^verbatim>\<open>%s\<close>, \<^verbatim>\<open>%llu\<close> and \<^verbatim>\<open>%lf\<close> skip leading
  white space themselves. \<^verbatim>\<open>%Ns\<close> stores at most N bytes that are not white space. The numeric
  conversions take the longest prefix that \<^verbatim>\<open>strtoull\<close> (base 10) and \<^verbatim>\<open>strtod\<close> accept:
  an optional sign, then decimal digits (for \<^verbatim>\<open>%lf\<close> with an optional fraction and exponent, or
  one of \<^verbatim>\<open>inf\<close>, \<^verbatim>\<open>infinity\<close>, \<^verbatim>\<open>nan\<close> in any case). Hexadecimal floating constants
  are not part of the model. Each scanner returns the converted value and the rest of the
  input, or \<open>None\<close> when the directive fails.
\<close>

definition skip_ws :: "string \<Rightarrow> string" where
  "skip_ws s = dropWhile isspace s"

definition scan_s :: "nat \<Rightarrow> string \<Rightarrow> (string \<times> string) option" where
  "scan_s width s =
     (let s1 = skip_ws s in
      if s1 = [] then None
      else let tok = takeWhile (\<lambda>c. \<not> isspace c) (take width s1)
           in Some (tok, drop (length tok) s1))"

definition scan_sign :: "string \<Rightarrow> bool \<times> string" where
  "scan_sign s =
     (case s of
        [] \<Rightarrow> (False, s)
      | c # r \<Rightarrow> if c = CHR ''-'' then (True, r) else if c = CHR ''+'' then (False, r) else (False, s))"

definition digit_val :: "char \<Rightarrow> int" where
  "digit_val c = of_char c - 48"

definition digits_val :: "string \<Rightarrow> int" where
  "digits_val ds = foldl (\<lambda>a c. 10 * a + digit_val c) 0 ds"

definition strtoull :: "bool \<Rightarrow> string \<Rightarrow> 64 word" where
  \<comment> \<open>the value of a sign and a digit string: saturated at \<^verbatim>\<open>ULLONG_MAX\<close>, negated modulo \<open>2^64\<close>\<close>
  "strtoull neg ds =
     (let v = digits_val ds in
      if 2 ^ 64 \<le> v then - 1
      else if neg then - (of_int v) else of_int v)"

definition scan_llu :: "string \<Rightarrow> (64 word \<times> string) option" where
  "scan_llu s =
     (let (neg, s1) = scan_sign (skip_ws s);
          ds = takeWhile isdigit s1
      in if ds = [] then None else Some (strtoull neg ds, drop (length ds) s1))"

definition has_prefix_ci :: "string \<Rightarrow> string \<Rightarrow> bool" where
  "has_prefix_ci p s = (length p \<le> length s \<and> map tolower (take (length p) s) = p)"

definition scan_special :: "string \<Rightarrow> (cdouble \<times> string) option" where
  "scan_special s =
     (if has_prefix_ci ''infinity'' s then Some (PInf, drop 8 s)
      else if has_prefix_ci ''inf'' s then Some (PInf, drop 3 s)
      else if has_prefix_ci ''nan'' s then Some (NaN, drop 3 s)
      else None)"

definition scan_exponent :: "string \<Rightarrow> int \<times> string" where
  \<comment> \<open>an exponent part is taken only when it is complete: e, optional sign, at least one digit\<close>
  "scan_exponent s =
     (case s of
        [] \<Rightarrow> (0, s)
      | c # r \<Rightarrow>
          if tolower c = CHR ''e'' then
            (let (neg, r1) = scan_sign r;
                 ds = takeWhile isdigit r1
             in if ds = [] then (0, s)
                else (if neg then - digits_val ds else digits_val ds, drop (length ds) r1))
          else (0, s))"

definition decimal_value :: "string \<Rightarrow> string \<Rightarrow> int \<Rightarrow> rat" where
  \<comment> \<open>integer digits, fraction digits and exponent of a decimal constant\<close>
  "decimal_value ip fp ex =
     (let m = of_int (digits_val (ip @ fp)) / 10 ^ length fp
      in if 0 \<le> ex then m * 10 ^ nat ex else m / 10 ^ nat (- ex))"

definition scan_decimal :: "string \<Rightarrow> (cdouble \<times> string) option" where
  "scan_decimal s =
     (let ip = takeWhile isdigit s;
          s1 = drop (length ip) s;
          (fp, s2) = (case s1 of
                        [] \<Rightarrow> ([], s1)
                      | c # r \<Rightarrow> if c = CHR ''.''
                                 then (takeWhile isdigit r, drop (length (takeWhile isdigit r)) r)
                                 else ([], s1))
      in if ip = [] \<and> fp = [] then None
         else let (ex, s3) = scan_exponent s2
              in Some (Fin (decimal_value ip fp ex), s3))"

definition scan_lf :: "string \<Rightarrow> (cdouble \<times> string) option" where
  "scan_lf s =
     (let (neg, s1) = scan_sign (skip_ws s);
          number = (if scan_special s1 = None then scan_decimal s1 else scan_special s1)
      in map_option (\<lambda>(v, r). (if neg then dneg v else v, r)) number)"

text \<open>
  The call of line 164. \<open>Some\<close> of the nine locals stands for the return value 9; \<open>None\<close> for
  any other return value (a directive failed, or the input ended, before the ninth
  conversion). Input after the ninth conversion is not looked at.
\<close>

definition sscanf_line :: "string \<Rightarrow> observation option" where
  "sscanf_line line = do {
     (sc, r1) \<leftarrow> scan_s 2 (c_str line);
     (ts, r2) \<leftarrow> scan_llu (skip_ws r1);
     (gh, r3) \<leftarrow> scan_s 12 (skip_ws r2);
     (hu, r4) \<leftarrow> scan_lf (skip_ws r3);
     (sn, r5) \<leftarrow> scan_lf (skip_ws r4);
     (cc, r6) \<leftarrow> scan_lf (skip_ws r5);
     (li, r7) \<leftarrow> scan_lf (skip_ws r6);
     (pr, r8) \<leftarrow> scan_lf (skip_ws r7);
     (te, r9) \<leftarrow> scan_lf (skip_ws r8);
     Some \<lparr>state_code = sc, timestamp = ts, geohash = gh, humidity = hu, snow = sn,
           cloudcover = cc, lightning = li, pressure = pr, temperature = te\<rparr>
   }"

subsection \<open>Reading a line: \<^verbatim>\<open>fgets\<close>\<close>

text \<open>
  An open file is the string of bytes still to be read. \<^verbatim>\<open>fgets(line, n, file)\<close> stores at most
  \<open>n - 1\<close> bytes, stopping after a newline, and returns NULL (\<open>None\<close>) at the end of the file.
\<close>

fun fgets_take :: "nat \<Rightarrow> string \<Rightarrow> string \<times> string" where
  "fgets_take 0 s = ([], s)"
| "fgets_take (Suc k) [] = ([], [])"
| "fgets_take (Suc k) (c # cs) =
     (if c = NL then ([c], cs) else (let (l, r) = fgets_take k cs in (c # l, r)))"

definition fgets :: "nat \<Rightarrow> string \<Rightarrow> (string \<times> string) option" where
  "fgets n file = (if file = [] then None else Some (fgets_take (n - 1) file))"

subsection \<open>The table and the state of a run\<close>

text \<open>
  \<open>heap\<close> is the number of accumulators \<^verbatim>\<open>calloc\<close> can still serve and \<open>stderr\<close> the error
  stream. \<open>folded\<close> is a history variable: the observations folded so far, oldest first. The
  program has no such variable and nothing below reads it; the theorems use it to say which
  lines were folded.
\<close>

record world =
  states :: "climate_info option list"
  heap :: nat
  stderr :: string
  folded :: "observation list"

definition out_of_range :: "observation \<Rightarrow> bool" where
  \<comment> \<open>the test of lines 173 to 175\<close>
  "out_of_range ob =
     (dless (humidity ob) (Fin 0) \<or> dless (Fin 100) (humidity ob) \<or>
      dless (cloudcover ob) (Fin 0) \<or> dless (Fin 100) (cloudcover ob) \<or>
      dless (temperature ob) (Fin 0))"

datatype slot = Existing nat | Vacant nat | No_Slot

text \<open>
  The search of lines 181 to 199, from slot \<open>i\<close> on: the first slot that holds the code, or
  the first NULL slot met before it. \<open>No_Slot\<close> is \<^verbatim>\<open>state_idx == -1\<close>.
\<close>

fun find_slot :: "climate_info option list \<Rightarrow> string \<Rightarrow> nat \<Rightarrow> slot" where
  "find_slot [] sc i = No_Slot"
| "find_slot (Some e # rest) sc i =
     (if code e = sc then Existing i else find_slot rest sc (Suc i))"
| "find_slot (None # rest) sc i = Vacant i"

definition new_info :: "string \<Rightarrow> climate_info" where
  \<comment> \<open>\<^verbatim>\<open>calloc\<close>, \<^verbatim>\<open>strncpy\<close> of two bytes, and the two sentinels\<close>
  "new_info sc =
     \<lparr>code = take 2 sc, num_records = 0, sum_temperature = Fin 0, sum_humidity = Fin 0,
      sum_cloudcover = Fin 0, lightning_strikes = 0, snow_records = 0,
      max_temp_time = 0, min_temp_time = 0, max_temp = dneg DBL_MAX, min_temp = DBL_MAX\<rparr>"

definition update :: "climate_info \<Rightarrow> observation \<Rightarrow> climate_info" where
  \<comment> \<open>lines 207 to 222\<close>
  "update info ob =
     (let info1 = info
            \<lparr>num_records := num_records info + 1,
             sum_temperature := dadd (sum_temperature info) (temperature ob),
             sum_humidity := dadd (sum_humidity info) (humidity ob),
             sum_cloudcover := dadd (sum_cloudcover info) (cloudcover ob),
             lightning_strikes := lightning_strikes info + (if dless (Fin 0) (lightning ob) then 1 else 0),
             snow_records := snow_records info + (if dless (Fin 0) (snow ob) then 1 else 0)\<rparr>;
          info2 = (if dless (max_temp info1) (temperature ob)
                   then info1\<lparr>max_temp := temperature ob, max_temp_time := timestamp ob div 1000\<rparr>
                   else info1)
      in if dless (temperature ob) (min_temp info2)
         then info2\<lparr>min_temp := temperature ob, min_temp_time := timestamp ob div 1000\<rparr>
         else info2)"

datatype loop_step = Next world nat | Return int world

text \<open>
  One iteration of the \<^verbatim>\<open>while\<close> loop on the buffer \<open>line\<close>, with the current value of
  \<^verbatim>\<open>lines_processed\<close>. \<open>Next\<close> is the end of the iteration (also by \<^verbatim>\<open>continue\<close>),
  \<open>Return\<close> the \<^verbatim>\<open>return -1\<close> of line 191.
\<close>

definition fold_into :: "nat \<Rightarrow> climate_info \<Rightarrow> observation \<Rightarrow> world \<Rightarrow> world" where
  "fold_into idx info ob w =
     w\<lparr>states := (states w)[idx := Some (update info ob)], folded := folded w @ [ob]\<rparr>"

definition loop_body :: "string \<Rightarrow> world \<Rightarrow> nat \<Rightarrow> loop_step" where
  "loop_body line w lines_processed =
     (if LINE_BUFFER - 1 \<le> strlen line then Next w lines_processed
      else case sscanf_line line of
        None \<Rightarrow> Next w lines_processed
      | Some ob \<Rightarrow>
          if out_of_range ob then Next w lines_processed
          else (case find_slot (states w) (state_code ob) 0 of
                  No_Slot \<Rightarrow> Next w lines_processed
                | Existing idx \<Rightarrow>
                    Next (fold_into idx (the (states w ! idx)) ob w) (lines_processed + 1)
                | Vacant idx \<Rightarrow>
                    if heap w = 0
                    then Return (- 1) (w\<lparr>stderr := stderr w @ ''Error: Memory allocation failed'' @ [NL]\<rparr>)
                    else Next (fold_into idx (new_info (state_code ob)) ob (w\<lparr>heap := heap w - 1\<rparr>))
                              (lines_processed + 1)))"

function while_loop :: "string \<Rightarrow> world \<Rightarrow> nat \<Rightarrow> loop_step" where
  "while_loop file w lines_processed =
     (case fgets LINE_BUFFER file of
        None \<Rightarrow> Next w lines_processed
      | Some (line, file') \<Rightarrow>
          (case loop_body line w lines_processed of
             Return rc w' \<Rightarrow> Return rc w'
           | Next w' lines_processed' \<Rightarrow> while_loop file' w' lines_processed'))"
  by pat_completeness auto

termination
proof (relation "measure (\<lambda>(f, w, n). length f)")
  show "wf (measure (\<lambda>(f :: string, w :: world, n :: nat). length f))"
    by simp
next
  fix f :: string and w :: world and n :: nat
    and x2 :: "string \<times> string" and line f' :: string
    and w' :: world and n' :: nat
  assume got: "fgets LINE_BUFFER f = Some x2" and x2: "(line, f') = x2"
  have len: "fgets_take k s = (l, r) \<Longrightarrow> length l + length r = length s" for k s l r
    by (induction k s arbitrary: l r rule: fgets_take.induct)
       (auto split: if_splits prod.splits)
  have pos: "fgets_take (Suc k) (c # cs) = (l, r) \<Longrightarrow> l \<noteq> []" for k c cs l r
    by (auto split: if_splits prod.splits)
  from got x2 obtain c cs where f: "f = c # cs"
    and take: "fgets_take 99 (c # cs) = (line, f')"
    by (cases f) (auto simp: fgets_def LINE_BUFFER_def split: if_splits)
  from take have "line \<noteq> []"
    using pos [of 98 c cs line f'] by simp
  moreover from take have "length line + length f' = length f"
    using len f by blast
  ultimately have "length f' < length f"
    by (cases line) auto
  then show "((f', w', n'), (f, w, n)) \<in> measure (\<lambda>(f, w, n). length f)"
    by simp
qed

text \<open>
  \<^verbatim>\<open>analyze_file\<close>. The file pointer may be NULL (\<open>None\<close>); \<^verbatim>\<open>num_states\<close> is the length of the
  table. The result is the return value and the state the call leaves behind.
\<close>

definition analyze_file :: "string option \<Rightarrow> world \<Rightarrow> int \<times> world" where
  "analyze_file file w =
     (case file of
        None \<Rightarrow> (- 1, w)
      | Some f \<Rightarrow>
          if int (length (states w)) \<le> 0 then (- 1, w)
          else (case while_loop f w 0 of
                  Return rc w' \<Rightarrow> (rc, w')
                | Next w' lines_processed \<Rightarrow> (if 0 < lines_processed then 0 else - 1, w')))"

subsection \<open>The report\<close>

text \<open>
  What \<^verbatim>\<open>printf\<close> writes for \<^verbatim>\<open>%.1Lf\<close> and what \<^verbatim>\<open>ctime\<close> returns (a local calendar time
  ending in a newline) belong to the C library and the time zone: they are parameters.
\<close>

record libc =
  printf_Lf1 :: "cdouble \<Rightarrow> string"
  ctime :: "64 word \<Rightarrow> string"

fun printf_lu :: "nat \<Rightarrow> string" where
  "printf_lu n =
     (if n < 10 then [char_of (48 + n)] else printf_lu (n div 10) @ [char_of (48 + n mod 10)])"

definition to_fahrenheit :: "cdouble \<Rightarrow> cdouble" where
  \<comment> \<open>\<^verbatim>\<open>(k - 273.15) * 9/5 + 32\<close>\<close>
  "to_fahrenheit k = dadd (ddiv (dmul (dsub k (Fin (27315 / 100))) (Fin 9)) (Fin 5)) (Fin 32)"

definition average :: "cdouble \<Rightarrow> nat \<Rightarrow> cdouble" where
  \<comment> \<open>a running sum divided by \<^verbatim>\<open>num_records\<close>\<close>
  "average s n = ddiv s (Fin (of_nat n))"

definition present :: "climate_info option list \<Rightarrow> climate_info list" where
  \<comment> \<open>the entries of the slots that are not NULL, in slot order\<close>
  "present ss = List.map_filter id ss"

definition report_header :: "climate_info option list \<Rightarrow> string" where
  "report_header ss =
     ''States found: '' @ concat (map (\<lambda>info. code info @ '' '') (present ss)) @ [NL]"

definition state_block :: "libc \<Rightarrow> climate_info \<Rightarrow> string" where
  "state_block L info =
     ''-- State: '' @ code info @ '' --'' @ [NL] @
     ''Number of Records: '' @ printf_lu (num_records info) @ [NL] @
     ''Average Humidity: '' @ printf_Lf1 L (average (sum_humidity info) (num_records info)) @ ''%'' @ [NL] @
     ''Average Temperature: '' @
        printf_Lf1 L (to_fahrenheit (average (sum_temperature info) (num_records info))) @ ''F'' @ [NL] @
     ''Max Temperature: '' @ printf_Lf1 L (to_fahrenheit (max_temp info)) @ ''F'' @ [NL] @
     ''Max Temperature on: '' @ ctime L (max_temp_time info) @
     ''Min Temperature: '' @ printf_Lf1 L (to_fahrenheit (min_temp info)) @ ''F'' @ [NL] @
     ''Min Temperature on: '' @ ctime L (min_temp_time info) @
     ''Lightning Strikes: '' @ printf_lu (lightning_strikes info) @ [NL] @
     ''Records with Snow Cover: '' @ printf_lu (snow_records info) @ [NL] @
     ''Average Cloud Cover: '' @ printf_Lf1 L (average (sum_cloudcover info) (num_records info)) @ ''%'' @ [NL]"

definition print_report :: "libc \<Rightarrow> climate_info option list \<Rightarrow> string" where
  "print_report L ss = report_header ss @ concat (map (state_block L) (present ss))"

subsection \<open>\<^verbatim>\<open>main\<close>\<close>

text \<open>
  The file system maps a path to the contents of the file, \<open>None\<close> when \<^verbatim>\<open>fopen\<close> fails.
  \<open>argv\<close> is the whole argument vector, the program name first.
\<close>

record outcome =
  exit_status :: int
  stdout :: string
  errout :: string

definition initial_world :: "nat \<Rightarrow> world" where
  "initial_world h = \<lparr>states = replicate NUM_STATES None, heap = h, stderr = [], folded = []\<rparr>"

fun process_files :: "(string \<Rightarrow> string option) \<Rightarrow> string list \<Rightarrow> world \<Rightarrow> int \<Rightarrow> world \<times> int" where
  "process_files fs [] w files_processed = (w, files_processed)"
| "process_files fs (path # paths) w files_processed =
     (case fs path of
        None \<Rightarrow>
          process_files fs paths
            (w\<lparr>stderr := stderr w @ ''Unable to open file: '' @ path @ [NL]\<rparr>) files_processed
      | Some file \<Rightarrow>
          (case analyze_file (Some file) w of
             (rc, w') \<Rightarrow>
               if rc = 0 then process_files fs paths w' (files_processed + 1)
               else process_files fs paths
                      (w'\<lparr>stderr := stderr w' @ ''Error processing file: '' @ path @ [NL]\<rparr>)
                      files_processed))"

definition opening_notices :: "string list \<Rightarrow> string" where
  "opening_notices paths = concat (map (\<lambda>path. ''Opening file: '' @ path @ [NL]) paths)"

definition main :: "libc \<Rightarrow> (string \<Rightarrow> string option) \<Rightarrow> nat \<Rightarrow> string list \<Rightarrow> outcome" where
  "main L fs h argv =
     (if length argv < 2
      then \<lparr>exit_status = EXIT_FAILURE, stdout = [],
            errout = ''Not enough arguments provided. No file provided to analyze.'' @ [NL]\<rparr>
      else (case process_files fs (tl argv) (initial_world h) 0 of
              (w, files_processed) \<Rightarrow>
                if files_processed = 0
                then \<lparr>exit_status = EXIT_FAILURE, stdout = opening_notices (tl argv),
                      errout = stderr w @ ''No valid files were processed.'' @ [NL]\<rparr>
                else \<lparr>exit_status = EXIT_SUCCESS,
                      stdout = opening_notices (tl argv) @ print_report L (states w),
                      errout = stderr w\<rparr>))"

subsection \<open>Sample inputs\<close>

text \<open>The observation of the first line of the format example in the header comment.\<close>

definition scenario_A :: observation where
  "scenario_A =
     \<lparr>state_code = ''CA'', timestamp = 1428300000000, geohash = ''9prcjqk3yc80'',
      humidity = Fin 93, snow = Fin 0, cloudcover = Fin 100, lightning = Fin 0,
      pressure = Fin 95644, temperature = Fin (27758716 / 100000)\<rparr>"


text \<open>The line of \<open>scenario_A\<close>, as it stands in a file.\<close>

definition scenario_A_line :: string where
  "scenario_A_line =
     ''CA'' @ TAB # ''1428300000000'' @ TAB # ''9prcjqk3yc80'' @ TAB # ''93.0'' @ TAB # ''0.0'' @
     TAB # ''100.0'' @ TAB # ''0.0'' @ TAB # ''95644.0'' @ TAB # ''277.58716'' @ [NL]"

text \<open>A table with no NULL slot left: fifty accumulators, for the codes AA to BX.\<close>

definition state_name :: "nat \<Rightarrow> string" where
  "state_name i = [char_of (65 + i div 26), char_of (65 + i mod 26)]"

definition full_table :: "climate_info option list" where
  "full_table = map (\<lambda>i. Some (update (new_info (state_name i)) scenario_A)) [0..<NUM_STATES]"

subsection \<open>Notions used to state the properties\<close>

text \<open>The state an iteration, or the whole loop, leaves behind.\<close>

fun world_of :: "loop_step \<Rightarrow> world" where
  "world_of (Next w n) = w"
| "world_of (Return rc w) = w"

text \<open>
  The states of a run: the initial state of \<^verbatim>\<open>main\<close>, and every state that an iteration of
  the loop of \<^verbatim>\<open>analyze_file\<close> or a diagnostic of \<^verbatim>\<open>main\<close> makes of a state of a run.
\<close>

inductive reachable :: "world \<Rightarrow> bool" where
  initial: "reachable (initial_world h)"
| iteration: "reachable w \<Longrightarrow> reachable (world_of (loop_body line w n))"
| diagnostic: "reachable w \<Longrightarrow> reachable (w\<lparr>stderr := e\<rparr>)"

text \<open>The distinct elements of a list in the order of their first occurrence.\<close>

fun first_sightings :: "'a list \<Rightarrow> 'a list" where
  "first_sightings [] = []"
| "first_sightings (x # xs) = x # filter (\<lambda>y. y \<noteq> x) (first_sightings xs)"

definition counted :: "world \<Rightarrow> bool" where
  "counted w = (\<forall>e \<in> set (present (states w)). 1 \<le> num_records e)"



text \<open>A second sample line, for another state, and a C library for the report.\<close>

definition scenario_TN :: observation where
  "scenario_TN =
     \<lparr>state_code = ''TN'', timestamp = 1438599600000, geohash = ''dn6hbr1n2p00'',
      humidity = Fin 50, snow = Fin 1, cloudcover = Fin 10, lightning = Fin 1,
      pressure = Fin 100000, temperature = Fin 300\<rparr>"

definition scenario_TN_line :: string where
  "scenario_TN_line =
     ''TN'' @ TAB # ''1438599600000'' @ TAB # ''dn6hbr1n2p00'' @ TAB # ''50.0'' @ TAB # ''1.0'' @
     TAB # ''10.0'' @ TAB # ''1.0'' @ TAB # ''100000.0'' @ TAB # ''300.0'' @ [NL]"

definition sample_libc :: libc where
  "sample_libc = \<lparr>printf_Lf1 = (\<lambda>d. ''0.0''), ctime = (\<lambda>t. ''Thu Jan  1 00:00:00 1970'' @ [NL])\<rparr>"

text \<open>The states after the first sample line, and after the second.\<close>

definition world_CA :: world where
  "world_CA =
     \<lparr>states = Some (update (new_info ''CA'') scenario_A) # replicate 49 None,
      heap = 49, stderr = [], folded = [scenario_A]\<rparr>"


text \<open>
  The number of arguments that \<^verbatim>\<open>main\<close>'s loop opens and \<^verbatim>\<open>analyze_file\<close> processes with
  return value 0, each file read in the state its predecessors left.
\<close>

fun successes :: "(string \<Rightarrow> string option) \<Rightarrow> string list \<Rightarrow> world \<Rightarrow> nat" where
  "successes fs [] w = 0"
| "successes fs (path # paths) w =
     (case fs path of
        None \<Rightarrow> successes fs paths (w\<lparr>stderr := stderr w @ ''Unable to open file: '' @ path @ [NL]\<rparr>)
      | Some f \<Rightarrow>
          if fst (analyze_file (Some f) w) = 0
          then 1 + successes fs paths (snd (analyze_file (Some f) w))
          else successes fs paths
                 ((snd (analyze_file (Some f) w))
                    \<lparr>stderr := stderr (snd (analyze_file (Some f) w)) @
                                ''Error processing file: '' @ path @ [NL]\<rparr>))"

text \<open>A file system with one file, holding the first sample line.\<close>

definition sample_fs :: "string \<Rightarrow> string option" where
  "sample_fs path = (if path = ''ca.tdv'' then Some scenario_A_line else None)"

text \<open>
  The records counted in a table, its NULL slots, and the diagnostic of line 190.
\<close>

definition total_records :: "climate_info option list \<Rightarrow> nat" where
  "total_records ss = sum_list (map num_records (present ss))"

definition vacant :: "climate_info option list \<Rightarrow> nat" where
  "vacant ss = length (filter (\<lambda>s. s = None) ss)"

definition memory_error :: string where
  "memory_error = ''Error: Memory allocation failed'' @ [NL]"

text \<open>
  What a state \<open>w\<close> keeps of an earlier state \<open>w0\<close>: the history only grows, a table with no
  new folding is the same table, and every folding since is counted in the table.
\<close>

definition keeps :: "world \<Rightarrow> world \<Rightarrow> bool" where
  "keeps w0 w =
     (length (folded w0) \<le> length (folded w) \<and>
      (length (folded w) = length (folded w0) \<longrightarrow> states w = states w0) \<and>
      total_records (states w) = total_records (states w0) + (length (folded w) - length (folded w0)))"

text \<open>A file with the two sample lines.\<close>

definition two_state_file :: string where
  "two_state_file = scenario_A_line @ scenario_TN_line"

text \<open>
  A line of a file that holds an observation for the state code \<open>k\<close>: it ends in its only
  newline, fits the buffer, and is parsed to an in-range observation with that code.
\<close>

definition record_line :: "string \<Rightarrow> string \<Rightarrow> bool" where
  "record_line k l =
     (l \<noteq> [] \<and> last l = NL \<and> NL \<notin> set (butlast l) \<and> length l < LINE_BUFFER - 1 \<and>
      (case sscanf_line l of
         None \<Rightarrow> False
       | Some ob \<Rightarrow> \<not> out_of_range ob \<and> state_code ob = k))"

text \<open>Two states with the same table, heap and history; two loop results with such states.\<close>

definition same_table :: "world \<Rightarrow> world \<Rightarrow> bool" where
  "same_table w v = (states w = states v \<and> heap w = heap v \<and> folded w = folded v)"

fun same_step :: "loop_step \<Rightarrow> loop_step \<Rightarrow> bool" where
  "same_step (Next w n) (Next v m) = same_table w v"
| "same_step (Return rc w) (Return rc' v) = same_table w v"
| "same_step _ _ = False"

text \<open>The observations of one state in two files, and in one.\<close>

definition split_fs :: "string \<Rightarrow> string option" where
  "split_fs path =
     (if path = ''tn1.tdv'' then Some (concat [scenario_TN_line])
      else if path = ''tn2.tdv'' then Some (concat [scenario_TN_line, scenario_TN_line])
      else None)"

definition combined_fs :: "string \<Rightarrow> string option" where
  "combined_fs path =
     (if path = ''tn.tdv'' then Some (concat ([scenario_TN_line] @ [scenario_TN_line, scenario_TN_line]))
      else None)"

subsection \<open>Lines in the documented format\<close>











text \<open>
  The parser and validator of the specification (\<^verbatim>\<open>parse_line\<close>), which the source has inline
  in the loop: the length guard of line 153, the \<^verbatim>\<open>sscanf\<close> of line 164 and the range test of
  line 173. \<open>None\<close> is a rejected line.
\<close>

definition parse_line :: "string \<Rightarrow> observation option" where
  "parse_line line =
     (if LINE_BUFFER - 1 \<le> strlen line then None
      else case sscanf_line line of
        None \<Rightarrow> None
      | Some ob \<Rightarrow> if out_of_range ob then None else Some ob)"

text \<open>The fields of a line in the sense of the specification: the pieces between tabs.\<close>

fun tab_fields :: "string \<Rightarrow> string list" where
  "tab_fields [] = [[]]"
| "tab_fields (c # s) =
     (if c = TAB then [] # tab_fields s
      else (case tab_fields s of [] \<Rightarrow> [[c]] | f # fs \<Rightarrow> (c # f) # fs))"




definition long_code_line :: string where
  "long_code_line = ''CAL'' @ drop 2 scenario_A_line"

text \<open>Ninety-nine bytes with no newline: the start of an over-long line.\<close>

definition padding :: string where
  "padding = replicate 99 (CHR ''x'')"

section \<open>Properties\<close>

subsection \<open>The update of an accumulator\<close>

lemma dless_irrefl [simp]: "\<not> dless x x"
  by (cases x) simp_all

lemma timestamp_seconds: "word_of_nat (unat (t :: 64 word) div 1000) = t div 1000"
  by (simp add: word_arith_nat_div)

lemma update_max:
  "max_temp (update a ob) = (if dless (max_temp a) (temperature ob) then temperature ob else max_temp a)"
  "max_temp_time (update a ob) =
     (if dless (max_temp a) (temperature ob) then timestamp ob div 1000 else max_temp_time a)"
  by (simp_all add: update_def Let_def)

lemma update_min:
  "min_temp (update a ob) = (if dless (temperature ob) (min_temp a) then temperature ob else min_temp a)"
  "min_temp_time (update a ob) =
     (if dless (temperature ob) (min_temp a) then timestamp ob div 1000 else min_temp_time a)"
  by (simp_all add: update_def Let_def)

lemma update_counts:
  "num_records (update a ob) = num_records a + 1"
  "lightning_strikes (update a ob) = lightning_strikes a + (if dless (Fin 0) (lightning ob) then 1 else 0)"
  "snow_records (update a ob) = snow_records a + (if dless (Fin 0) (snow ob) then 1 else 0)"
  "code (update a ob) = code a"
  by (simp_all add: update_def Let_def)

lemma update_sums:
  "sum_temperature (update a ob) = dadd (sum_temperature a) (temperature ob)"
  "sum_humidity (update a ob) = dadd (sum_humidity a) (humidity ob)"
  "sum_cloudcover (update a ob) = dadd (sum_cloudcover a) (cloudcover ob)"
  by (simp_all add: update_def Let_def)

text \<open>
  C1. \<open>update\<close> is a total function of the accumulator and the observation. It adds one to
  \<open>num_records\<close>, adds temperature, humidity and cloud cover to their sums, adds one to
  \<open>lightning_strikes\<close> exactly when \<^verbatim>\<open>lightning > 0\<close> and to \<open>snow_records\<close> exactly when
  \<^verbatim>\<open>snow > 0\<close>, and replaces a stored extremum together with its time exactly when the
  temperature is strictly beyond it; the new time is the millisecond timestamp divided by 1000,
  rounded down. The code of the accumulator is not touched.
\<close>

theorem update_fold:
  "num_records (update a ob) = num_records a + 1 \<and>
   sum_temperature (update a ob) = dadd (sum_temperature a) (temperature ob) \<and>
   sum_humidity (update a ob) = dadd (sum_humidity a) (humidity ob) \<and>
   sum_cloudcover (update a ob) = dadd (sum_cloudcover a) (cloudcover ob) \<and>
   lightning_strikes (update a ob) =
     (if dless (Fin 0) (lightning ob) then lightning_strikes a + 1 else lightning_strikes a) \<and>
   snow_records (update a ob) =
     (if dless (Fin 0) (snow ob) then snow_records a + 1 else snow_records a) \<and>
   (max_temp (update a ob), max_temp_time (update a ob)) =
     (if dless (max_temp a) (temperature ob)
      then (temperature ob, word_of_nat (unat (timestamp ob) div 1000))
      else (max_temp a, max_temp_time a)) \<and>
   (min_temp (update a ob), min_temp_time (update a ob)) =
     (if dless (temperature ob) (min_temp a)
      then (temperature ob, word_of_nat (unat (timestamp ob) div 1000))
      else (min_temp a, min_temp_time a)) \<and>
   code (update a ob) = code a"
proof (intro conjI)
  show "num_records (update a ob) = num_records a + 1"
    and "code (update a ob) = code a"
    by (rule update_counts)+
  show "sum_temperature (update a ob) = dadd (sum_temperature a) (temperature ob)"
    and "sum_humidity (update a ob) = dadd (sum_humidity a) (humidity ob)"
    and "sum_cloudcover (update a ob) = dadd (sum_cloudcover a) (cloudcover ob)"
    by (rule update_sums)+
  show "lightning_strikes (update a ob) =
      (if dless (Fin 0) (lightning ob) then lightning_strikes a + 1 else lightning_strikes a)"
    and "snow_records (update a ob) =
      (if dless (Fin 0) (snow ob) then snow_records a + 1 else snow_records a)"
    by (simp_all add: update_counts)
  show "(max_temp (update a ob), max_temp_time (update a ob)) =
      (if dless (max_temp a) (temperature ob)
       then (temperature ob, word_of_nat (unat (timestamp ob) div 1000))
       else (max_temp a, max_temp_time a))"
    by (simp add: update_max timestamp_seconds)
  show "(min_temp (update a ob), min_temp_time (update a ob)) =
      (if dless (temperature ob) (min_temp a)
       then (temperature ob, word_of_nat (unat (timestamp ob) div 1000))
       else (min_temp a, min_temp_time a))"
    by (simp add: update_min timestamp_seconds)
qed

theorem update_fold_witness:
  "num_records (update (new_info ''CA'') scenario_A) = 1 \<and>
   sum_humidity (update (new_info ''CA'') scenario_A) = Fin 93 \<and>
   lightning_strikes (update (new_info ''CA'') scenario_A) = 0 \<and>
   max_temp_time (update (new_info ''CA'') scenario_A) = 1428300000 \<and>
   min_temp (update (new_info ''CA'') scenario_A) = Fin (27758716 / 100000)"
  using update_fold [of "new_info ''CA''" scenario_A]
  by (simp add: new_info_def scenario_A_def DBL_MAX_def)



subsection \<open>The table\<close>

lemma present_simps [simp]:
  "present [] = []" "present (None # ss) = present ss" "present (Some e # ss) = e # present ss"
  by (simp_all add: present_def List.map_filter_simps)

lemma find_slot_full:
  "None \<notin> set ss \<Longrightarrow> sc \<notin> set (map code (present ss)) \<Longrightarrow> find_slot ss sc i = No_Slot"
  by (induction ss sc i rule: find_slot.induct) auto

lemma scenario_A_parses: "sscanf_line scenario_A_line = Some scenario_A"
  unfolding scenario_A_line_def scenario_A_def by code_simp

lemma scenario_A_in_range: "\<not> out_of_range scenario_A"
  by code_simp

lemma present_map_Some [simp]: "present (map (\<lambda>i. Some (f i)) xs) = map f xs"
  by (induction xs) simp_all

lemma full_table_full: "None \<notin> set full_table"
  by (auto simp: full_table_def)

lemma full_table_codes: "map code (present full_table) = map state_name [0..<NUM_STATES]"
  by (simp add: full_table_def update_counts new_info_def state_name_def)

lemma full_table_no_CA: "''CA'' \<notin> set (map code (present full_table))"
  unfolding full_table_codes by code_simp

text \<open>
  C6. When no slot of the table is NULL and the code of a parsed, in-range observation is
  the code of no accumulator, the iteration ends with the whole state as it was: no
  accumulator is changed, nothing is allocated or written, and \<^verbatim>\<open>lines_processed\<close> keeps
  its value.
\<close>

theorem full_table_drops:
  assumes "None \<notin> set (states w)"
    and "sscanf_line line = Some ob" and "\<not> out_of_range ob"
    and "state_code ob \<notin> set (map code (present (states w)))"
  shows "loop_body line w n = Next w n"
  using assms find_slot_full [of "states w" "state_code ob" 0]
  by (simp add: loop_body_def)

theorem full_table_drops_witness:
  "None \<notin> set full_table \<and> sscanf_line scenario_A_line = Some scenario_A \<and>
   \<not> out_of_range scenario_A \<and> ''CA'' \<notin> set (map code (present full_table)) \<and>
   loop_body scenario_A_line \<lparr>states = full_table, heap = 7, stderr = [], folded = []\<rparr> 3 =
     Next \<lparr>states = full_table, heap = 7, stderr = [], folded = []\<rparr> 3"
  using full_table_drops [of "\<lparr>states = full_table, heap = 7, stderr = [], folded = []\<rparr>"
      scenario_A_line scenario_A 3]
    full_table_full full_table_no_CA scenario_A_in_range scenario_A_parses
  by (simp add: scenario_A_def)

subsection \<open>The loop and its invariants\<close>

declare while_loop.simps [simp del]

lemma while_loop_eof: "fgets LINE_BUFFER f = None \<Longrightarrow> while_loop f w n = Next w n"
  by (subst while_loop.simps) simp

lemma while_loop_return:
  "fgets LINE_BUFFER f = Some (line, f') \<Longrightarrow> loop_body line w n = Return rc w' \<Longrightarrow>
   while_loop f w n = Return rc w'"
  by (subst while_loop.simps) simp

lemma while_loop_next:
  "fgets LINE_BUFFER f = Some (line, f') \<Longrightarrow> loop_body line w n = Next w' n' \<Longrightarrow>
   while_loop f w n = while_loop f' w' n'"
  by (subst while_loop.simps) simp

lemma while_loop_world:
  assumes step: "\<And>line w n. P w \<Longrightarrow> P (world_of (loop_body line w n))"
  shows "P w \<Longrightarrow> P (world_of (while_loop f w n))"
proof (induction f w n rule: while_loop.induct)
  case (1 f w n)
  show ?case
  proof (cases "fgets LINE_BUFFER f")
    case None
    with 1 show ?thesis by (simp add: while_loop_eof)
  next
    case (Some x)
    obtain line f' where x: "x = (line, f')" by (cases x)
    show ?thesis
    proof (cases "loop_body line w n")
      case (Next w' n')
      with step [OF "1.prems", of line n] have "P w'" by simp
      with "1.IH" [OF Some x [symmetric] Next] have "P (world_of (while_loop f' w' n'))" .
      with Some x Next show ?thesis by (simp add: while_loop_next)
    next
      case (Return rc w')
      with step [OF "1.prems", of line n] Some x show ?thesis by (simp add: while_loop_return)
    qed
  qed
qed

lemma analyze_file_while:
  "analyze_file (Some f) w =
     (if states w = [] then (- 1, w)
      else (case while_loop f w 0 of
              Return rc w' \<Rightarrow> (rc, w')
            | Next w' n \<Rightarrow> (if 0 < n then 0 else - 1, w')))"
  by (simp add: analyze_file_def)

lemma snd_analyze_file:
  "snd (analyze_file (Some f) w) = (if states w = [] then w else world_of (while_loop f w 0))"
  by (simp add: analyze_file_while split: loop_step.splits)

lemma analyze_file_world:
  assumes step: "\<And>line w n. P w \<Longrightarrow> P (world_of (loop_body line w n))"
  shows "P w \<Longrightarrow> P (snd (analyze_file fp w))"
proof (cases fp)
  case None
  then show "P w \<Longrightarrow> ?thesis" by (simp add: analyze_file_def)
next
  case (Some f)
  then show "P w \<Longrightarrow> ?thesis"
    using while_loop_world [of P w f 0, OF step] by (simp add: snd_analyze_file)
qed

lemma process_files_world:
  assumes step: "\<And>line w n. P w \<Longrightarrow> P (world_of (loop_body line w n))"
    and err: "\<And>w e. P w \<Longrightarrow> P (w\<lparr>stderr := e\<rparr>)"
  shows "P w \<Longrightarrow> P (fst (process_files fs paths w k))"
proof (induction paths arbitrary: w k)
  case Nil
  then show ?case by simp
next
  case (Cons path paths)
  show ?case
  proof (cases "fs path")
    case None
    with Cons err show ?thesis by simp
  next
    case (Some f)
    have "P (snd (analyze_file (Some f) w))"
      using analyze_file_world [of P w "Some f", OF step] Cons.prems by simp
    with Some Cons.IH err show ?thesis
      by (auto split: prod.splits)
  qed
qed

lemma present_update_subset: "set (present (ss[i := Some e])) \<subseteq> insert e (set (present ss))"
proof (induction ss arbitrary: i)
  case Nil
  then show ?case by simp
next
  case (Cons s ss)
  then show ?case
    by (cases i; cases s) auto
qed

lemma loop_body_cases:
  obtains
    (skip) "loop_body line w n = Next w n"
  | (existing) ob idx where "sscanf_line line = Some ob" "\<not> out_of_range ob"
      "find_slot (states w) (state_code ob) 0 = Existing idx"
      "loop_body line w n = Next (fold_into idx (the (states w ! idx)) ob w) (n + 1)"
  | (created) ob idx where "sscanf_line line = Some ob" "\<not> out_of_range ob"
      "find_slot (states w) (state_code ob) 0 = Vacant idx" "0 < heap w"
      "loop_body line w n =
         Next (fold_into idx (new_info (state_code ob)) ob (w\<lparr>heap := heap w - 1\<rparr>)) (n + 1)"
  | (nomem) ob idx where "sscanf_line line = Some ob" "\<not> out_of_range ob"
      "find_slot (states w) (state_code ob) 0 = Vacant idx" "heap w = 0"
      "loop_body line w n =
         Return (- 1) (w\<lparr>stderr := stderr w @ ''Error: Memory allocation failed'' @ [NL]\<rparr>)"
proof (cases "LINE_BUFFER - 1 \<le> strlen line")
  case True
  then show ?thesis using skip by (simp add: loop_body_def)
next
  case short: False
  show ?thesis
  proof (cases "sscanf_line line")
    case None
    with short show ?thesis using skip by (simp add: loop_body_def)
  next
    case (Some ob)
    show ?thesis
    proof (cases "out_of_range ob")
      case True
      with short Some show ?thesis using skip by (simp add: loop_body_def)
    next
      case ok: False
      show ?thesis
      proof (cases "find_slot (states w) (state_code ob) 0")
        case (Existing idx)
        with short Some ok show ?thesis using existing [of ob idx] by (simp add: loop_body_def)
      next
        case (Vacant idx)
        with short Some ok show ?thesis
          using created [of ob idx] nomem [of ob idx] by (cases "heap w = 0") (simp_all add: loop_body_def)
      next
        case No_Slot
        with short Some ok show ?thesis using skip by (simp add: loop_body_def)
      qed
    qed
  qed
qed

lemma loop_body_existing_eq:
  assumes "strlen line < LINE_BUFFER - 1" "sscanf_line line = Some ob" "\<not> out_of_range ob"
    and "find_slot (states w) (state_code ob) 0 = Existing idx"
  shows "loop_body line w n = Next (fold_into idx (the (states w ! idx)) ob w) (n + 1)"
  using assms by (simp add: loop_body_def)

lemma loop_body_created_eq:
  assumes "strlen line < LINE_BUFFER - 1" "sscanf_line line = Some ob" "\<not> out_of_range ob"
    and "find_slot (states w) (state_code ob) 0 = Vacant idx" "0 < heap w"
  shows "loop_body line w n =
    Next (fold_into idx (new_info (state_code ob)) ob (w\<lparr>heap := heap w - 1\<rparr>)) (n + 1)"
  using assms by (simp add: loop_body_def)

lemma loop_body_nomem_eq:
  assumes "strlen line < LINE_BUFFER - 1" "sscanf_line line = Some ob" "\<not> out_of_range ob"
    and "find_slot (states w) (state_code ob) 0 = Vacant idx" "heap w = 0"
  shows "loop_body line w n =
    Return (- 1) (w\<lparr>stderr := stderr w @ ''Error: Memory allocation failed'' @ [NL]\<rparr>)"
  using assms by (simp add: loop_body_def)

lemma counted_fold_into:
  assumes "counted w" shows "counted (fold_into idx a ob w)"
proof -
  have "1 \<le> num_records (update a ob)"
    by (simp add: update_def Let_def)
  with assms present_update_subset [of "states w" idx "update a ob"] show ?thesis
    by (auto simp: counted_def fold_into_def)
qed

lemma loop_body_counted:
  assumes "counted w" shows "counted (world_of (loop_body line w n))"
proof (cases line w n rule: loop_body_cases)
  case skip
  with assms show ?thesis by simp
next
  case (existing ob idx)
  with assms counted_fold_into show ?thesis by simp
next
  case (created ob idx)
  from assms have "counted (w\<lparr>heap := heap w - 1\<rparr>)" by (simp add: counted_def)
  with created counted_fold_into show ?thesis by simp
next
  case (nomem ob idx)
  with assms show ?thesis by (simp add: counted_def)
qed

lemma reachable_process_files: "reachable (fst (process_files fs paths (initial_world h) k))"
  using process_files_world [of reachable "initial_world h" fs paths k]
  by (simp add: reachable.intros)

lemma reachable_counted: "reachable w \<Longrightarrow> counted w"
proof (induction rule: reachable.induct)
  case (initial h)
  show ?case by (simp add: counted_def initial_world_def present_def List.map_filter_def)
next
  case (iteration w line n)
  then show ?case by (simp add: loop_body_counted)
next
  case (diagnostic w e)
  then show ?case by (simp add: counted_def)
qed

text \<open>
  C5. In every state of a run, each accumulator of the table has \<open>num_records\<close> at least 1:
  a slot is filled only in an iteration that also folds the observation into it. So the
  divisor of every average of the report is not zero. The final state of \<^verbatim>\<open>main\<close>'s loop
  over the files is such a state (\<open>reachable_process_files\<close>).
\<close>

theorem record_count_positive:
  assumes "reachable w" and "e \<in> set (present (states w))"
  shows "1 \<le> num_records e \<and> (of_nat (num_records e) :: rat) \<noteq> 0"
  using reachable_counted [OF assms(1)] assms(2) by (auto simp: counted_def)

lemma scenario_A_strlen: "strlen scenario_A_line = 67"
  unfolding scenario_A_line_def by code_simp

lemma initial_table: "states (initial_world h) = None # replicate 49 None"
  by (simp add: initial_world_def NUM_STATES_def flip: replicate_Suc)

lemma first_iteration: "loop_body scenario_A_line (initial_world 50) n = Next world_CA (n + 1)"
proof -
  have "find_slot (states (initial_world 50)) (state_code scenario_A) 0 = Vacant 0"
    by (simp add: initial_table)
  moreover have "0 < heap (initial_world 50)"
    by (simp add: initial_world_def)
  ultimately have "loop_body scenario_A_line (initial_world 50) n =
      Next (fold_into 0 (new_info (state_code scenario_A)) scenario_A
             ((initial_world 50)\<lparr>heap := heap (initial_world 50) - 1\<rparr>)) (n + 1)"
    using scenario_A_parses scenario_A_in_range
    by (intro loop_body_created_eq) (simp_all add: scenario_A_strlen LINE_BUFFER_def)
  also have "fold_into 0 (new_info (state_code scenario_A)) scenario_A
             ((initial_world 50)\<lparr>heap := heap (initial_world 50) - 1\<rparr>) = world_CA"
    by (simp add: fold_into_def initial_table world_CA_def)
       (simp add: initial_world_def scenario_A_def)
  finally show ?thesis .
qed

lemma reachable_CA: "reachable world_CA"
  using reachable.iteration [OF reachable.initial, of scenario_A_line 50 0]
  by (simp add: first_iteration)

theorem record_count_positive_witness:
  "reachable world_CA \<and>
   update (new_info ''CA'') scenario_A \<in> set (present (states world_CA)) \<and>
   1 \<le> num_records (update (new_info ''CA'') scenario_A)"
  using record_count_positive [of world_CA "update (new_info ''CA'') scenario_A"] reachable_CA
  by (simp add: world_CA_def)

subsection \<open>The order of the table\<close>

lemma set_first_sightings [simp]: "set (first_sightings xs) = set xs"
  by (induction xs) auto

lemma distinct_first_sightings [simp]: "distinct (first_sightings xs)"
  by (induction xs) auto












lemma scenario_TN_parses: "sscanf_line scenario_TN_line = Some scenario_TN"
  unfolding scenario_TN_line_def scenario_TN_def by code_simp

lemma scenario_TN_in_range: "\<not> out_of_range scenario_TN"
  by code_simp

lemma scenario_TN_strlen: "strlen scenario_TN_line = 63"
  unfolding scenario_TN_line_def by code_simp




subsection \<open>The driver\<close>

lemma process_files_count:
  "snd (process_files fs paths w k) = k + int (successes fs paths w)"
proof (induction paths arbitrary: w k)
  case Nil
  show ?case by simp
next
  case (Cons path paths)
  show ?case
  proof (cases "fs path")
    case None
    then show ?thesis by (simp add: Cons.IH)
  next
    case (Some f)
    then show ?thesis by (cases "analyze_file (Some f) w") (simp add: Cons.IH)
  qed
qed

text \<open>
  C8. With no file argument, \<^verbatim>\<open>main\<close> writes one diagnostic to the error stream, nothing
  to the output, and exits with failure, whatever the file system holds. With arguments, it
  writes the opening notices; when no file was processed successfully it adds a diagnostic
  to the error stream and exits with failure, the notices being all of its output; otherwise
  the output is the notices followed by the report of the final table, once, and the exit
  status is success.
\<close>

theorem main_outcome:
  "(length argv < 2 \<longrightarrow>
      main L fs h argv =
        \<lparr>exit_status = EXIT_FAILURE, stdout = [],
         errout = ''Not enough arguments provided. No file provided to analyze.'' @ [NL]\<rparr>) \<and>
   (2 \<le> length argv \<and> successes fs (tl argv) (initial_world h) = 0 \<longrightarrow>
      main L fs h argv =
        \<lparr>exit_status = EXIT_FAILURE, stdout = opening_notices (tl argv),
         errout = stderr (fst (process_files fs (tl argv) (initial_world h) 0)) @
                  ''No valid files were processed.'' @ [NL]\<rparr>) \<and>
   (2 \<le> length argv \<and> 0 < successes fs (tl argv) (initial_world h) \<longrightarrow>
      main L fs h argv =
        \<lparr>exit_status = EXIT_SUCCESS,
         stdout = opening_notices (tl argv) @
                  print_report L (states (fst (process_files fs (tl argv) (initial_world h) 0))),
         errout = stderr (fst (process_files fs (tl argv) (initial_world h) 0))\<rparr>)"
  using process_files_count [of fs "tl argv" "initial_world h" 0]
  by (cases "process_files fs (tl argv) (initial_world h) 0") (auto simp: main_def)

lemma fgets_scenario_A: "fgets LINE_BUFFER scenario_A_line = Some (scenario_A_line, [])"
  unfolding scenario_A_line_def by code_simp

lemma analyze_scenario_A: "analyze_file (Some scenario_A_line) (initial_world 50) = (0, world_CA)"
proof -
  have "while_loop scenario_A_line (initial_world 50) 0 = while_loop [] world_CA 1"
    using while_loop_next [OF fgets_scenario_A first_iteration [of 0]] by simp
  also have "\<dots> = Next world_CA 1"
    by (rule while_loop_eof) (simp add: fgets_def)
  finally show ?thesis
    by (simp add: analyze_file_while initial_table)
qed

lemma main_scenario_D:
  "process_files sample_fs [''ca.tdv'', ''missing''] (initial_world 50) 0 =
     (world_CA\<lparr>stderr := ''Unable to open file: missing'' @ [NL]\<rparr>, 1)"
  by (simp add: sample_fs_def analyze_scenario_A) (simp add: world_CA_def)

lemma missing_only:
  "process_files sample_fs [''missing''] (initial_world 50) 0 =
     ((initial_world 50)\<lparr>stderr := ''Unable to open file: missing'' @ [NL]\<rparr>, 0)"
  "successes sample_fs [''missing''] (initial_world 50) = 0"
  by (simp_all add: sample_fs_def initial_world_def)

lemma scenario_D_successes: "successes sample_fs [''ca.tdv'', ''missing''] (initial_world 50) = 1"
  by (simp add: sample_fs_def analyze_scenario_A)

theorem main_outcome_witness:
  "exit_status (main sample_libc sample_fs 50 [''climate'']) = EXIT_FAILURE \<and>
   stdout (main sample_libc sample_fs 50 [''climate'']) = [] \<and>
   main sample_libc sample_fs 50 [''climate'', ''missing''] =
     \<lparr>exit_status = EXIT_FAILURE, stdout = ''Opening file: missing'' @ [NL],
      errout = ''Unable to open file: missing'' @ [NL] @ ''No valid files were processed.'' @ [NL]\<rparr> \<and>
   main sample_libc sample_fs 50 [''climate'', ''ca.tdv'', ''missing''] =
     \<lparr>exit_status = EXIT_SUCCESS,
      stdout = ''Opening file: ca.tdv'' @ [NL] @ ''Opening file: missing'' @ [NL] @
               print_report sample_libc (states world_CA),
      errout = ''Unable to open file: missing'' @ [NL]\<rparr>"
proof -
  have none: "main sample_libc sample_fs 50 [''climate''] =
      \<lparr>exit_status = EXIT_FAILURE, stdout = [],
       errout = ''Not enough arguments provided. No file provided to analyze.'' @ [NL]\<rparr>"
    using main_outcome [of "[''climate'']" sample_libc sample_fs 50] by simp
  have missing: "main sample_libc sample_fs 50 [''climate'', ''missing''] =
      \<lparr>exit_status = EXIT_FAILURE, stdout = opening_notices [''missing''],
       errout = stderr (fst (process_files sample_fs [''missing''] (initial_world 50) 0)) @
                ''No valid files were processed.'' @ [NL]\<rparr>"
    using main_outcome [of "[''climate'', ''missing'']" sample_libc sample_fs 50] missing_only(2)
    by (simp del: successes.simps process_files.simps)
  have both: "main sample_libc sample_fs 50 [''climate'', ''ca.tdv'', ''missing''] =
      \<lparr>exit_status = EXIT_SUCCESS,
       stdout = opening_notices [''ca.tdv'', ''missing''] @
         print_report sample_libc
           (states (fst (process_files sample_fs [''ca.tdv'', ''missing''] (initial_world 50) 0))),
       errout = stderr (fst (process_files sample_fs [''ca.tdv'', ''missing''] (initial_world 50) 0))\<rparr>"
    using main_outcome [of "[''climate'', ''ca.tdv'', ''missing'']" sample_libc sample_fs 50]
      scenario_D_successes
    by (simp del: successes.simps process_files.simps)
  show ?thesis
    unfolding none missing both main_scenario_D missing_only(1)
    by (simp add: opening_notices_def)
qed

subsection \<open>The result of a file\<close>

lemma while_loop_rel:
  assumes base: "\<And>w n. Q w n (Next w n)"
    and ret: "\<And>line w n rc w'. loop_body line w n = Return rc w' \<Longrightarrow> Q w n (Return rc w')"
    and step: "\<And>line w n w1 n1 r. loop_body line w n = Next w1 n1 \<Longrightarrow> Q w1 n1 r \<Longrightarrow> Q w n r"
  shows "Q w n (while_loop f w n)"
proof (induction f w n rule: while_loop.induct)
  case (1 f w n)
  show ?case
  proof (cases "fgets LINE_BUFFER f")
    case None
    then show ?thesis by (simp add: while_loop_eof base)
  next
    case (Some x)
    obtain line f' where x: "x = (line, f')" by (cases x)
    show ?thesis
    proof (cases "loop_body line w n")
      case (Next w1 n1)
      from "1.IH" [OF Some x [symmetric] Next] have "Q w1 n1 (while_loop f' w1 n1)" .
      from step [OF Next this] Some x Next show ?thesis by (simp add: while_loop_next)
    next
      case (Return rc w')
      with ret [OF Return] Some x show ?thesis by (simp add: while_loop_return)
    qed
  qed
qed

lemma find_slot_Existing:
  "find_slot ss sc i = Existing idx \<Longrightarrow>
   i \<le> idx \<and> idx - i < length ss \<and> (\<exists>e. ss ! (idx - i) = Some e \<and> code e = sc)"
proof (induction ss sc i rule: find_slot.induct)
  case (2 e rest sc i)
  show ?case
  proof (cases "code e = sc")
    case True
    with 2 show ?thesis by simp
  next
    case False
    with 2 have "Suc i \<le> idx \<and> idx - Suc i < length rest \<and>
        (\<exists>e. rest ! (idx - Suc i) = Some e \<and> code e = sc)" by simp
    then show ?thesis by (auto simp: nth_Cons' Suc_diff_Suc)
  qed
qed simp_all

lemma find_slot_Vacant:
  "find_slot ss sc i = Vacant idx \<Longrightarrow> i \<le> idx \<and> idx - i < length ss \<and> ss ! (idx - i) = None"
proof (induction ss sc i rule: find_slot.induct)
  case (2 e rest sc i)
  then have "Suc i \<le> idx \<and> idx - Suc i < length rest \<and> rest ! (idx - Suc i) = None"
    by (simp split: if_splits)
  then show ?case by (auto simp: nth_Cons' Suc_diff_Suc)
qed simp_all

lemma update_Some:
  "i < length ss \<Longrightarrow> ss ! i = Some e0 \<Longrightarrow>
   total_records (ss[i := Some e]) + num_records e0 = total_records ss + num_records e \<and>
   vacant (ss[i := Some e]) = vacant ss"
proof (induction ss arbitrary: i)
  case Nil
  then show ?case by simp
next
  case (Cons s ss)
  then show ?case
    by (cases i; cases s) (auto simp: total_records_def vacant_def)
qed

lemma update_None:
  "i < length ss \<Longrightarrow> ss ! i = None \<Longrightarrow>
   total_records (ss[i := Some e]) = total_records ss + num_records e \<and>
   Suc (vacant (ss[i := Some e])) = vacant ss"
proof (induction ss arbitrary: i)
  case Nil
  then show ?case by simp
next
  case (Cons s ss)
  then show ?case
    by (cases i; cases s) (auto simp: total_records_def vacant_def)
qed

lemma fold_into_fields [simp]:
  "states (fold_into idx a ob w) = (states w)[idx := Some (update a ob)]"
  "heap (fold_into idx a ob w) = heap w"
  "stderr (fold_into idx a ob w) = stderr w"
  "folded (fold_into idx a ob w) = folded w @ [ob]"
  by (simp_all add: fold_into_def)

lemma loop_body_Next:
  assumes "loop_body line w n = Next w1 n1"
  shows "(w1 = w \<and> n1 = n) \<or>
         (n1 = n + 1 \<and> (\<exists>ob. folded w1 = folded w @ [ob]) \<and> stderr w1 = stderr w \<and>
          total_records (states w1) = total_records (states w) + 1 \<and>
          (vacant (states w) \<le> heap w \<longrightarrow> vacant (states w1) \<le> heap w1))"
proof (cases line w n rule: loop_body_cases)
  case skip
  with assms show ?thesis by simp
next
  case (existing ob idx)
  from find_slot_Existing [OF existing(3)] obtain e
    where "idx < length (states w)" "states w ! idx = Some e" by auto
  with update_Some [of idx "states w" e "update e ob"] existing(4) assms show ?thesis
    by (auto simp: update_counts)
next
  case (created ob idx)
  from find_slot_Vacant [OF created(3)]
  have "idx < length (states w)" "states w ! idx = None" by auto
  with update_None [of idx "states w" "update (new_info (state_code ob)) ob"] created(4,5) assms
  show ?thesis
    by (auto simp: update_counts new_info_def)
next
  case (nomem ob idx)
  with assms show ?thesis by simp
qed

lemma loop_body_Return:
  assumes "loop_body line w n = Return rc w1"
  shows "rc = - 1 \<and> w1 = w\<lparr>stderr := stderr w @ memory_error\<rparr> \<and> heap w = 0 \<and> 0 < vacant (states w)"
proof (cases line w n rule: loop_body_cases)
  case (nomem ob idx)
  from find_slot_Vacant [OF nomem(3)]
  have "idx < length (states w)" "states w ! idx = None" by auto
  then have "None \<in> set (states w)" by (metis nth_mem)
  then have "filter (\<lambda>s. s = None) (states w) \<noteq> []"
    by (auto simp: filter_empty_conv)
  then have "0 < vacant (states w)" by (simp add: vacant_def)
  with nomem assms show ?thesis by (simp add: memory_error_def)
qed (use assms in simp_all)

lemma while_loop_counts:
  "case while_loop f w n of
     Next w' n' \<Rightarrow> n' + length (folded w) = n + length (folded w') \<and> stderr w' = stderr w
   | Return rc w' \<Rightarrow> rc = - 1 \<and> stderr w' = stderr w @ memory_error"
proof (rule while_loop_rel)
  fix w n show "case Next w n of
     Next w' n' \<Rightarrow> n' + length (folded w) = n + length (folded w') \<and> stderr w' = stderr w
   | Return rc w' \<Rightarrow> rc = - 1 \<and> stderr w' = stderr w @ memory_error" by simp
next
  fix line w n rc w' assume "loop_body line w n = Return rc w'"
  from loop_body_Return [OF this]
  show "case Return rc w' of
     Next w' n' \<Rightarrow> n' + length (folded w) = n + length (folded w') \<and> stderr w' = stderr w
   | Return rc w' \<Rightarrow> rc = - 1 \<and> stderr w' = stderr w @ memory_error" by simp
next
  fix line w n w1 n1 r
  assume "loop_body line w n = Next w1 n1"
    and "case r of
     Next w' n' \<Rightarrow> n' + length (folded w1) = n1 + length (folded w') \<and> stderr w' = stderr w1
   | Return rc w' \<Rightarrow> rc = - 1 \<and> stderr w' = stderr w1 @ memory_error"
  with loop_body_Next [of line w n w1 n1]
  show "case r of
     Next w' n' \<Rightarrow> n' + length (folded w) = n + length (folded w') \<and> stderr w' = stderr w
   | Return rc w' \<Rightarrow> rc = - 1 \<and> stderr w' = stderr w @ memory_error"
    by (cases r) auto
qed

lemma while_loop_enough_heap:
  "vacant (states w) \<le> heap w \<longrightarrow> (\<exists>w' n'. while_loop f w n = Next w' n')"
proof (rule while_loop_rel [where Q = "\<lambda>w n r. vacant (states w) \<le> heap w \<longrightarrow> (\<exists>w' n'. r = Next w' n')"])
  fix line w n rc w' assume "loop_body line w n = Return rc w'"
  from loop_body_Return [OF this]
  show "vacant (states w) \<le> heap w \<longrightarrow> (\<exists>w'a n'. Return rc w' = Next w'a n')" by simp
next
  fix line w n w1 n1 r
  assume "loop_body line w n = Next w1 n1"
    and "vacant (states w1) \<le> heap w1 \<longrightarrow> (\<exists>w' n'. r = Next w' n')"
  with loop_body_Next [of line w n w1 n1]
  show "vacant (states w) \<le> heap w \<longrightarrow> (\<exists>w' n'. r = Next w' n')" by auto
qed simp

lemma loop_body_keeps:
  assumes "keeps w0 w" shows "keeps w0 (world_of (loop_body line w n))"
proof (cases "loop_body line w n")
  case (Next w1 n1)
  with loop_body_Next [OF Next] assms show ?thesis
    by (auto simp: keeps_def)
next
  case (Return rc w1)
  with loop_body_Return [OF Return] assms show ?thesis
    by (auto simp: keeps_def)
qed

text \<open>
  C7 (as amended). \<^verbatim>\<open>analyze_file\<close> returns 0 exactly when at least one line of the file was
  folded and no allocation failed; otherwise it returns -1. An allocation failure is the only
  event that writes to the error stream here, it ends the file at once, and it cannot happen
  while the heap can serve every NULL slot of the table: then the file succeeds exactly when a
  line was folded. A file with no folded line leaves the table as it was. Success or failure,
  every line folded is counted in the table the call leaves behind: nothing is undone.
\<close>

theorem file_result:
  assumes "states w \<noteq> []" and "analyze_file (Some f) w = (rc, w')"
  shows "(rc = 0 \<longleftrightarrow> length (folded w) < length (folded w') \<and> stderr w' = stderr w) \<and>
         (rc \<noteq> 0 \<longrightarrow> rc = - 1) \<and>
         (stderr w' = stderr w \<or> stderr w' = stderr w @ memory_error) \<and>
         (vacant (states w) \<le> heap w \<longrightarrow> stderr w' = stderr w) \<and>
         (length (folded w') = length (folded w) \<longrightarrow> states w' = states w) \<and>
         total_records (states w') =
           total_records (states w) + (length (folded w') - length (folded w))"
proof -
  have k: "keeps w w'"
    using while_loop_world [of "keeps w" w f 0, OF loop_body_keeps] assms snd_analyze_file [of f w]
    by (simp add: keeps_def)
  show ?thesis
  proof (cases "while_loop f w 0")
    case (Next w1 n1)
    with assms have "w' = w1" "rc = (if 0 < n1 then 0 else - 1)"
      by (simp_all add: analyze_file_while)
    with while_loop_counts [where f = f and w = w and n = 0] Next k show ?thesis
      by (auto simp: keeps_def)
  next
    case (Return rc1 w1)
    with assms have "w' = w1" "rc = rc1"
      by (simp_all add: analyze_file_while)
    with while_loop_counts [where f = f and w = w and n = 0] while_loop_enough_heap [where w = w and f = f and n = 0] Return k show ?thesis
      by (auto simp: keeps_def memory_error_def)
  qed
qed

lemma first_iteration_heap:
  "loop_body scenario_A_line (initial_world (Suc h)) n = Next (world_CA\<lparr>heap := h\<rparr>) (n + 1)"
proof -
  have "find_slot (states (initial_world (Suc h))) (state_code scenario_A) 0 = Vacant 0"
    by (simp add: initial_table)
  moreover have "0 < heap (initial_world (Suc h))"
    by (simp add: initial_world_def)
  ultimately have "loop_body scenario_A_line (initial_world (Suc h)) n =
      Next (fold_into 0 (new_info (state_code scenario_A)) scenario_A
             ((initial_world (Suc h))\<lparr>heap := heap (initial_world (Suc h)) - 1\<rparr>)) (n + 1)"
    using scenario_A_parses scenario_A_in_range
    by (intro loop_body_created_eq) (simp_all add: scenario_A_strlen LINE_BUFFER_def)
  also have "fold_into 0 (new_info (state_code scenario_A)) scenario_A
             ((initial_world (Suc h))\<lparr>heap := heap (initial_world (Suc h)) - 1\<rparr>) = world_CA\<lparr>heap := h\<rparr>"
    by (simp add: fold_into_def initial_table world_CA_def)
       (simp add: initial_world_def scenario_A_def)
  finally show ?thesis .
qed

lemma fgets_two_state_file: "fgets LINE_BUFFER two_state_file = Some (scenario_A_line, scenario_TN_line)"
  unfolding two_state_file_def scenario_A_line_def scenario_TN_line_def by code_simp

lemma fgets_scenario_TN: "fgets LINE_BUFFER scenario_TN_line = Some (scenario_TN_line, [])"
  unfolding scenario_TN_line_def by code_simp

lemma one_accumulator_heap:
  "while_loop two_state_file (initial_world 1) 0 =
     Return (- 1) (world_CA\<lparr>heap := 0, stderr := memory_error\<rparr>)"
proof -
  let ?w1 = "world_CA\<lparr>heap := 0\<rparr>"
  have nones: "replicate 49 None = (None :: climate_info option) # replicate 48 None"
    by (simp flip: replicate_Suc)
  have one: "loop_body scenario_A_line (initial_world 1) 0 = Next ?w1 (0 + 1)"
    using first_iteration_heap [of 0 0] by simp
  have "find_slot (states ?w1) (state_code scenario_TN) 0 = Vacant 1"
    by (simp add: world_CA_def nones update_counts new_info_def scenario_TN_def)
  moreover have "heap ?w1 = 0"
    by simp
  ultimately have two: "loop_body scenario_TN_line ?w1 (0 + 1) =
      Return (- 1) (?w1\<lparr>stderr := stderr ?w1 @ ''Error: Memory allocation failed'' @ [NL]\<rparr>)"
    using scenario_TN_parses scenario_TN_in_range
    by (intro loop_body_nomem_eq) (simp_all add: scenario_TN_strlen LINE_BUFFER_def)
  have "while_loop two_state_file (initial_world 1) 0 = while_loop scenario_TN_line ?w1 (0 + 1)"
    using fgets_two_state_file one by (rule while_loop_next)
  also have "\<dots> = Return (- 1) (?w1\<lparr>stderr := stderr ?w1 @ ''Error: Memory allocation failed'' @ [NL]\<rparr>)"
    using fgets_scenario_TN two by (rule while_loop_return)
  finally show ?thesis
    by (simp add: memory_error_def world_CA_def)
qed

lemma analyze_one_accumulator_heap:
  "analyze_file (Some two_state_file) (initial_world 1) =
     (- 1, world_CA\<lparr>heap := 0, stderr := memory_error\<rparr>)"
  unfolding analyze_file_while one_accumulator_heap by (simp add: initial_table)

text \<open>
  The sentence of the specification, as it is written, fails when the heap holds one accumulator only: the first line of the
  file is folded, the allocation for the second line fails, and the file is reported as a
  failure although a line of it was folded.
\<close>

theorem success_iff_folded_counterexample:
  "fst (analyze_file (Some two_state_file) (initial_world 1)) = - 1 \<and>
   folded (initial_world 1) = [] \<and>
   folded (snd (analyze_file (Some two_state_file) (initial_world 1))) = [scenario_A] \<and>
   \<not> (fst (analyze_file (Some two_state_file) (initial_world 1)) = 0 \<longleftrightarrow>
      length (folded (initial_world 1))
        < length (folded (snd (analyze_file (Some two_state_file) (initial_world 1)))))"
  unfolding analyze_one_accumulator_heap
  by (simp add: initial_world_def world_CA_def)

theorem file_result_witness:
  "states (initial_world 50) \<noteq> [] \<and>
   analyze_file (Some scenario_A_line) (initial_world 50) = (0, world_CA) \<and>
   length (folded (initial_world 50)) < length (folded world_CA) \<and>
   stderr world_CA = stderr (initial_world 50) \<and>
   total_records (states world_CA) = total_records (states (initial_world 50)) + 1"
  using file_result [of "initial_world 50" scenario_A_line 0 world_CA] analyze_scenario_A
  by (simp add: initial_table) (simp add: initial_world_def world_CA_def)

subsection \<open>Several files, one table\<close>

lemma fgets_take_line:
  "NL \<notin> set xs \<Longrightarrow> length xs < k \<Longrightarrow> fgets_take k (xs @ NL # rest) = (xs @ [NL], rest)"
proof (induction xs arbitrary: k)
  case Nil
  then show ?case by (cases k) simp_all
next
  case (Cons x xs)
  then show ?case by (cases k) auto
qed

lemma fgets_record_line:
  assumes "record_line k l"
  shows "fgets LINE_BUFFER (l @ rest) = Some (l, rest)"
proof -
  define xs where "xs = butlast l"
  from assms have "l \<noteq> []" "last l = NL" and nl: "NL \<notin> set xs" and "length l < LINE_BUFFER - 1"
    unfolding xs_def record_line_def by simp_all
  then have l: "l = xs @ [NL]" and len: "length xs < LINE_BUFFER - 1"
    unfolding xs_def using append_butlast_last_id [of l] by simp_all
  have "fgets_take (LINE_BUFFER - 1) (xs @ NL # rest) = (xs @ [NL], rest)"
    using nl len by (rule fgets_take_line)
  then show ?thesis
    by (simp add: fgets_def l)
qed

lemma while_loop_line:
  assumes "record_line k l"
  shows "while_loop (l @ rest) w n =
     (case loop_body l w n of Return rc w' \<Rightarrow> Return rc w' | Next w' n' \<Rightarrow> while_loop rest w' n')"
  using fgets_record_line [OF assms, of rest]
  by (cases "loop_body l w n") (simp_all add: while_loop_next while_loop_return)

lemma while_loop_append:
  assumes "\<forall>l \<in> set ls. record_line k l"
  shows "while_loop (concat ls @ rest) w n =
     (case while_loop (concat ls) w n of
        Return rc w' \<Rightarrow> Return rc w'
      | Next w' n' \<Rightarrow> while_loop rest w' n')"
  using assms
proof (induction ls arbitrary: w n)
  case Nil
  then show ?case by (simp add: while_loop_eof fgets_def)
next
  case (Cons l ls)
  then have l: "record_line k l" and ls: "\<forall>l \<in> set ls. record_line k l" by simp_all
  show ?case
  proof (cases "loop_body l w n")
    case (Next w' n')
    with while_loop_line [OF l, of "concat ls @ rest" w n] while_loop_line [OF l, of "concat ls" w n]
      Cons.IH [OF ls, of w' n'] show ?thesis by simp
  next
    case (Return rc w')
    with while_loop_line [OF l, of "concat ls @ rest" w n] while_loop_line [OF l, of "concat ls" w n]
    show ?thesis by simp
  qed
qed

lemma loop_body_same:
  assumes "same_table w v"
  shows "same_step (loop_body line w n) (loop_body line v m)"
proof -
  from assms have eq: "states v = states w" "heap v = heap w" "folded v = folded w"
    by (simp_all add: same_table_def)
  show ?thesis
  proof (cases line w n rule: loop_body_cases)
    case skip
    moreover have "loop_body line v m = Next v m"
      using skip by (auto simp: loop_body_def eq split: if_splits option.splits slot.splits)
    ultimately show ?thesis using assms by simp
  next
    case (existing ob idx)
    then have "loop_body line v m = Next (fold_into idx (the (states v ! idx)) ob v) (m + 1)"
      by (auto simp: loop_body_def eq split: if_splits)
    with existing show ?thesis by (simp add: same_table_def eq)
  next
    case (created ob idx)
    then have "loop_body line v m =
        Next (fold_into idx (new_info (state_code ob)) ob (v\<lparr>heap := heap v - 1\<rparr>)) (m + 1)"
      by (auto simp: loop_body_def eq split: if_splits)
    with created show ?thesis by (simp add: same_table_def eq)
  next
    case (nomem ob idx)
    then have "loop_body line v m =
        Return (- 1) (v\<lparr>stderr := stderr v @ ''Error: Memory allocation failed'' @ [NL]\<rparr>)"
      by (auto simp: loop_body_def eq split: if_splits)
    with nomem show ?thesis by (simp add: same_table_def eq)
  qed
qed

lemma while_loop_same:
  "same_table w v \<Longrightarrow> same_step (while_loop f w n) (while_loop f v m)"
proof (induction f w n arbitrary: v m rule: while_loop.induct)
  case (1 f w n)
  show ?case
  proof (cases "fgets LINE_BUFFER f")
    case None
    with 1 show ?thesis by (simp add: while_loop_eof)
  next
    case (Some x)
    obtain line f' where x: "x = (line, f')" by (cases x)
    from loop_body_same [OF "1.prems", of line n m]
    show ?thesis
    proof (cases "loop_body line w n"; cases "loop_body line v m")
      fix w1 n1 v1 m1
      assume a: "loop_body line w n = Next w1 n1" and b: "loop_body line v m = Next v1 m1"
        and "same_step (loop_body line w n) (loop_body line v m)"
      then have "same_table w1 v1" by simp
      from "1.IH" [OF Some x [symmetric] a this, of m1] Some x a b show ?thesis
        by (simp add: while_loop_next)
    qed (use Some x in \<open>simp_all add: while_loop_return\<close>)
  qed
qed

lemma strlen_le: "strlen l \<le> length l"
  by (simp add: strlen_def c_str_def length_takeWhile_le)

lemma record_line_nomem:
  assumes "record_line k l" and "heap w = 0" and "find_slot (states w) k 0 = Vacant idx"
  shows "loop_body l w n = Return (- 1) (w\<lparr>stderr := stderr w @ memory_error\<rparr>)"
proof -
  from assms(1) obtain ob where ob: "sscanf_line l = Some ob" "\<not> out_of_range ob" "state_code ob = k"
    by (auto simp: record_line_def split: option.splits)
  from assms(1) strlen_le [of l] have "strlen l < LINE_BUFFER - 1"
    by (simp add: record_line_def)
  moreover from ob assms(3) have "find_slot (states w) (state_code ob) 0 = Vacant idx"
    by simp
  ultimately show ?thesis
    unfolding memory_error_def using ob(1,2) assms(2) by (intro loop_body_nomem_eq)
qed

lemma record_lines_abort:
  assumes "\<forall>l \<in> set ls. record_line k l" and "while_loop (concat ls) w n = Return rc w'"
  shows "heap w' = 0 \<and> (\<exists>idx. find_slot (states w') k 0 = Vacant idx)"
  using assms
proof (induction ls arbitrary: w n)
  case Nil
  then show ?case by (simp add: while_loop_eof fgets_def)
next
  case (Cons l ls)
  then have l: "record_line k l" and ls: "\<forall>l \<in> set ls. record_line k l" by simp_all
  from l obtain ob where ob: "sscanf_line l = Some ob" "state_code ob = k"
    by (auto simp: record_line_def split: option.splits)
  show ?case
  proof (cases "loop_body l w n")
    case (Next w1 n1)
    with while_loop_line [OF l, of "concat ls" w n] Cons.prems(2)
    have "while_loop (concat ls) w1 n1 = Return rc w'" by simp
    from Cons.IH [OF ls this] show ?thesis .
  next
    case (Return rc1 w1)
    with while_loop_line [OF l, of "concat ls" w n] Cons.prems(2)
    have w': "w' = w1" by simp
    show ?thesis
    proof (cases l w n rule: loop_body_cases)
      case (nomem ob' idx)
      with ob Return w' show ?thesis by auto
    qed (use Return in simp_all)
  qed
qed

lemma record_lines_stuck:
  assumes "\<forall>l \<in> set ls. record_line k l" and "heap w = 0" and "find_slot (states w) k 0 = Vacant idx"
  shows "same_table (world_of (while_loop (concat ls) w n)) w"
proof (cases ls)
  case Nil
  then show ?thesis by (simp add: while_loop_eof fgets_def same_table_def)
next
  case (Cons l ls')
  with assms(1) have l: "record_line k l" by simp
  from while_loop_line [OF l, of "concat ls'" w n] record_line_nomem [OF l assms(2,3), of n] Cons
  show ?thesis by (simp add: same_table_def)
qed

lemma loop_body_length: "length (states (world_of (loop_body line w n))) = length (states w)"
  by (cases line w n rule: loop_body_cases) simp_all

lemma while_loop_length: "length (states (world_of (while_loop f w n))) = length (states w)"
  using while_loop_world [of "\<lambda>v. length (states v) = length (states w)" w f n]
  by (simp add: loop_body_length)

text \<open>
  C3. Let the lines of two files be observations for one state code. Reading the first file
  and then the second, as \<^verbatim>\<open>main\<close> does, leaves the same table (and heap, and history of folded
  observations) as reading one file that holds the lines of the first followed by the lines
  of the second: the table is not reset between files. This holds from every state with a
  table, whatever the heap can still serve.
\<close>

theorem cross_file_accumulation:
  assumes lines: "\<forall>l \<in> set (ls1 @ ls2). record_line k l" and table: "states w \<noteq> []"
    and split: "fs p1 = Some (concat ls1)" "fs p2 = Some (concat ls2)"
    and combined: "fs' p = Some (concat (ls1 @ ls2))"
  shows "states (fst (process_files fs [p1, p2] w n)) = states (fst (process_files fs' [p] w n')) \<and>
         heap (fst (process_files fs [p1, p2] w n)) = heap (fst (process_files fs' [p] w n')) \<and>
         folded (fst (process_files fs [p1, p2] w n)) = folded (fst (process_files fs' [p] w n'))"
proof -
  from lines have ls1: "\<forall>l \<in> set ls1. record_line k l" and ls2: "\<forall>l \<in> set ls2. record_line k l"
    by simp_all
  define w1 where "w1 = snd (analyze_file (Some (concat ls1)) w)"
  define rc1 where "rc1 = fst (analyze_file (Some (concat ls1)) w)"
  define w1' where "w1' = (if rc1 = 0 then w1
     else w1\<lparr>stderr := stderr w1 @ ''Error processing file: '' @ p1 @ [NL]\<rparr>)"
  define w2 where "w2 = snd (analyze_file (Some (concat ls2)) w1')"
  define w3 where "w3 = snd (analyze_file (Some (concat (ls1 @ ls2))) w)"
  have same1: "same_table w1' w1"
    by (simp add: w1'_def same_table_def)
  have table1: "states w1' \<noteq> []"
    using while_loop_length [of "concat ls1" w 0] table
    by (auto simp: w1'_def w1_def snd_analyze_file)
  have left: "same_table (fst (process_files fs [p1, p2] w n)) w2"
    using split by (cases "analyze_file (Some (concat ls1)) w"; cases "analyze_file (Some (concat ls2)) w1'")
      (auto simp: w2_def w1'_def w1_def rc1_def same_table_def)
  have right: "same_table (fst (process_files fs' [p] w n')) w3"
    using combined by (cases "analyze_file (Some (concat (ls1 @ ls2))) w")
      (auto simp: w3_def same_table_def)
  have "same_table w2 w3"
  proof (cases "while_loop (concat ls1) w 0")
    case (Next v1 n1)
    then have v1: "w1 = v1" using table by (simp add: w1_def snd_analyze_file)
    from while_loop_append [OF ls1, of "concat ls2" w 0] Next
    have "while_loop (concat (ls1 @ ls2)) w 0 = while_loop (concat ls2) v1 n1" by simp
    then have "w3 = world_of (while_loop (concat ls2) v1 n1)"
      using table by (simp add: w3_def snd_analyze_file)
    moreover have "w2 = world_of (while_loop (concat ls2) w1' 0)"
      using table1 by (simp add: w2_def snd_analyze_file)
    moreover from while_loop_same [OF same1, of "concat ls2" 0 n1] v1
    have "same_table (world_of (while_loop (concat ls2) w1' 0)) (world_of (while_loop (concat ls2) v1 n1))"
      by (cases "while_loop (concat ls2) w1' 0"; cases "while_loop (concat ls2) v1 n1") simp_all
    ultimately show ?thesis by simp
  next
    case (Return rc v1)
    then have v1: "w1 = v1" using table by (simp add: w1_def snd_analyze_file)
    from while_loop_append [OF ls1, of "concat ls2" w 0] Return
    have "while_loop (concat (ls1 @ ls2)) w 0 = Return rc v1" by simp
    then have w3: "w3 = v1"
      using table by (simp add: w3_def snd_analyze_file)
    from record_lines_abort [OF ls1 Return] same1 v1
    obtain idx where "heap w1' = 0" "find_slot (states w1') k 0 = Vacant idx"
      by (auto simp: same_table_def)
    from record_lines_stuck [OF ls2 this, of 0] table1 have "same_table w2 w1'"
      by (simp add: w2_def snd_analyze_file)
    with same1 v1 w3 show ?thesis by (simp add: same_table_def)
  qed
  with left right show ?thesis by (simp add: same_table_def)
qed

lemma scenario_TN_record_line: "record_line ''TN'' scenario_TN_line"
  unfolding scenario_TN_line_def by code_simp

theorem cross_file_accumulation_witness:
  "record_line ''TN'' scenario_TN_line \<and> states (initial_world 50) \<noteq> [] \<and>
   states (fst (process_files split_fs [''tn1.tdv'', ''tn2.tdv''] (initial_world 50) 0)) =
   states (fst (process_files combined_fs [''tn.tdv''] (initial_world 50) 0))"
  using cross_file_accumulation [of "[scenario_TN_line]" "[scenario_TN_line, scenario_TN_line]" "''TN''"
      "initial_world 50" split_fs "''tn1.tdv''" "''tn2.tdv''" combined_fs "''tn.tdv''" 0 0]
    scenario_TN_record_line
  by (simp add: split_fs_def combined_fs_def initial_table del: process_files.simps)

subsection \<open>The parser\<close>



















lemma loop_body_rejected: "parse_line line = None \<Longrightarrow> loop_body line w n = Next w n"
  by (auto simp: parse_line_def loop_body_def split: if_splits option.splits)









lemma nine_fields: "length (tab_fields scenario_A_line) = 9"
  unfolding scenario_A_line_def by code_simp







lemma scan_llu_skip: "scan_llu (skip_ws s) = scan_llu s"
  by (simp add: scan_llu_def skip_ws_def)

lemma scan_llu_no_number:
  assumes "\<not> isspace c" "\<not> isdigit c" "c \<noteq> CHR ''+''" "c \<noteq> CHR ''-''"
  shows "scan_llu (c # r) = None"
  using assms by (simp add: scan_llu_def skip_ws_def scan_sign_def)

lemma scan_llu_empty: "scan_llu [] = None"
  by (simp add: scan_llu_def skip_ws_def scan_sign_def)

lemma scan_s_two:
  assumes "\<not> isspace c1" "\<not> isspace c2"
  shows "scan_s 2 (c1 # c2 # r) = Some ([c1, c2], r)"
  using assms by (simp add: scan_s_def skip_ws_def Let_def numeral_2_eq_2)

lemma scan_s_one:
  assumes "\<not> isspace c1"
  shows "scan_s 2 [c1] = Some ([c1], [])"
  using assms by (simp add: scan_s_def skip_ws_def Let_def numeral_2_eq_2)

lemma sscanf_line_start:
  "sscanf_line line = Some ob \<Longrightarrow>
   \<exists>r1 r2. scan_s 2 (c_str line) = Some (state_code ob, r1) \<and> scan_llu r1 = Some (timestamp ob, r2)"
  by (auto simp: sscanf_line_def scan_llu_skip split: Option.bind_splits)

lemma sscanf_line_no_timestamp:
  "scan_s 2 (c_str line) = Some (sc, r1) \<Longrightarrow> scan_llu r1 = None \<Longrightarrow> sscanf_line line = None"
  by (simp add: sscanf_line_def scan_llu_skip)

lemma sscanf_line_no_code: "scan_s 2 (c_str line) = None \<Longrightarrow> sscanf_line line = None"
  by (simp add: sscanf_line_def)

text \<open>
  C10 (as amended). \<^verbatim>\<open>%2s\<close> stores the first two bytes of the state-code field and the
  conversion of the timestamp starts at the third byte of the field. So a line whose first
  field has a third byte that is neither a digit nor a sign is rejected; and whenever a line
  that starts with two bytes that are not white space is accepted, its state code is these two
  bytes and its timestamp was read from the text right after them.
\<close>

theorem long_state_code:
  "(\<not> isspace c1 \<and> \<not> isspace c2 \<and> \<not> isspace c3 \<and> \<not> isdigit c3 \<and> c3 \<noteq> CHR ''+'' \<and> c3 \<noteq> CHR ''-'' \<longrightarrow>
      sscanf_line (c1 # c2 # c3 # rest) = None) \<and>
   (\<not> isspace c1 \<and> \<not> isspace c2 \<and> c1 \<noteq> NUL \<and> c2 \<noteq> NUL \<and> sscanf_line (c1 # c2 # rest) = Some ob \<longrightarrow>
      state_code ob = [c1, c2] \<and> (\<exists>r. scan_llu (c_str rest) = Some (timestamp ob, r)))"
proof (intro conjI impI)
  assume a: "\<not> isspace c1 \<and> \<not> isspace c2 \<and> \<not> isspace c3 \<and> \<not> isdigit c3 \<and> c3 \<noteq> CHR ''+'' \<and> c3 \<noteq> CHR ''-''"
  show "sscanf_line (c1 # c2 # c3 # rest) = None"
  proof (cases "c1 = NUL")
    case True
    then have "scan_s 2 (c_str (c1 # c2 # c3 # rest)) = None"
      by (simp add: c_str_def scan_s_def skip_ws_def)
    then show ?thesis by (rule sscanf_line_no_code)
  next
    case c1: False
    show ?thesis
    proof (cases "c2 = NUL")
      case True
      with c1 a have "scan_s 2 (c_str (c1 # c2 # c3 # rest)) = Some ([c1], [])"
        by (simp add: c_str_def scan_s_one)
      then show ?thesis using scan_llu_empty by (rule sscanf_line_no_timestamp)
    next
      case c2: False
      show ?thesis
      proof (cases "c3 = NUL")
        case True
        with c1 c2 a have "scan_s 2 (c_str (c1 # c2 # c3 # rest)) = Some ([c1, c2], [])"
          by (simp add: c_str_def scan_s_two)
        then show ?thesis using scan_llu_empty by (rule sscanf_line_no_timestamp)
      next
        case False
        with c1 c2 a have "scan_s 2 (c_str (c1 # c2 # c3 # rest)) = Some ([c1, c2], c3 # c_str rest)"
          by (simp add: c_str_def scan_s_two)
        moreover from a have "scan_llu (c3 # c_str rest) = None"
          by (intro scan_llu_no_number) simp_all
        ultimately show ?thesis by (rule sscanf_line_no_timestamp)
      qed
    qed
  qed
next
  assume b: "\<not> isspace c1 \<and> \<not> isspace c2 \<and> c1 \<noteq> NUL \<and> c2 \<noteq> NUL \<and> sscanf_line (c1 # c2 # rest) = Some ob"
  then have "scan_s 2 (c_str (c1 # c2 # rest)) = Some ([c1, c2], c_str rest)"
    by (simp add: c_str_def scan_s_two)
  with sscanf_line_start [of "c1 # c2 # rest" ob] b
  show "state_code ob = [c1, c2]" and "\<exists>r. scan_llu (c_str rest) = Some (timestamp ob, r)"
    by auto
qed

text \<open>
  The sentence of the specification, as it is written, fails on the first sample line with the state code CAL: nothing else is
  changed, and the line is rejected, not accepted with the code CA.
\<close>

lemma long_code_rejected: "sscanf_line long_code_line = None"
  unfolding long_code_line_def scenario_A_line_def by code_simp

lemma long_code_fields: "tab_fields long_code_line = ''CAL'' # tl (tab_fields scenario_A_line)"
  unfolding long_code_line_def scenario_A_line_def by code_simp

lemma long_code_skipped: "loop_body long_code_line (initial_world 50) 0 = Next (initial_world 50) 0"
  by (rule loop_body_rejected) (simp add: parse_line_def long_code_rejected)

theorem long_state_code_counterexample:
  "tab_fields long_code_line = ''CAL'' # tl (tab_fields scenario_A_line) \<and>
   sscanf_line scenario_A_line = Some scenario_A \<and>
   sscanf_line long_code_line = None \<and> parse_line long_code_line = None \<and>
   loop_body long_code_line (initial_world 50) 0 = Next (initial_world 50) 0"
  by (simp add: long_code_rejected long_code_fields scenario_A_parses parse_line_def long_code_skipped)

theorem long_state_code_witness:
  "sscanf_line (CHR ''C'' # CHR ''A'' # CHR ''L'' # drop 2 scenario_A_line) = None \<and>
   sscanf_line (CHR ''C'' # CHR ''A'' # drop 2 scenario_A_line) = Some scenario_A \<and>
   state_code scenario_A = [CHR ''C'', CHR ''A'']"
proof -
  have line: "CHR ''C'' # CHR ''A'' # drop 2 scenario_A_line = scenario_A_line"
    by (simp add: scenario_A_line_def)
  have chars: "\<not> isspace (CHR ''C'')" "\<not> isspace (CHR ''A'')" "\<not> isspace (CHR ''L'')"
    "\<not> isdigit (CHR ''L'')" "CHR ''C'' \<noteq> NUL" "CHR ''A'' \<noteq> NUL"
    by (simp_all add: isspace_def isdigit_def NUL_def)
  from long_state_code [of "CHR ''C''" "CHR ''A''" "CHR ''L''" "drop 2 scenario_A_line" scenario_A]
    chars scenario_A_parses line
  show ?thesis by simp
qed

subsection \<open>Over-long lines\<close>

lemma fgets_take_all:
  "NL \<notin> set xs \<Longrightarrow> fgets_take (length xs) (xs @ rest) = (xs, rest)"
  by (induction xs) auto

lemma fgets_full_buffer:
  assumes "NL \<notin> set junk" "length junk = LINE_BUFFER - 1"
  shows "fgets LINE_BUFFER (junk @ rest) = Some (junk, rest)"
proof -
  from assms(2) have "junk \<noteq> []" by (auto simp: LINE_BUFFER_def)
  with fgets_take_all [OF assms(1), of rest] assms(2) show ?thesis
    by (simp add: fgets_def)
qed

lemma loop_body_overflow:
  assumes "NUL \<notin> set junk" "length junk = LINE_BUFFER - 1"
  shows "loop_body junk w n = Next w n"
proof -
  from assms(1) have "c_str junk = junk"
    by (simp add: c_str_def takeWhile_eq_all_conv) auto
  with assms(2) show ?thesis
    by (simp add: loop_body_def strlen_def)
qed

text \<open>
  X1. \<^verbatim>\<open>fgets\<close> hands a line of 99 bytes or more to the loop in pieces. The first piece fills
  the buffer and is skipped by the length guard; what follows it on the same line is read by
  the next \<^verbatim>\<open>fgets\<close> and processed like a line of its own. So when the rest of an over-long
  line is an observation, the loop folds it: the over-long line is not dropped as a whole.
\<close>

theorem long_line_tail:
  assumes "NL \<notin> set junk" "NUL \<notin> set junk" "length junk = LINE_BUFFER - 1" and "record_line k l"
  shows "while_loop (junk @ l @ rest) w n = while_loop (l @ rest) w n \<and>
         while_loop (l @ rest) w n =
           (case loop_body l w n of
              Return rc w' \<Rightarrow> Return rc w'
            | Next w' n' \<Rightarrow> while_loop rest w' n')"
  using while_loop_next [OF fgets_full_buffer [OF assms(1,3), of "l @ rest"]
      loop_body_overflow [OF assms(2,3), of w n]]
    while_loop_line [OF assms(4), of rest w n]
  by simp

lemma padding_facts: "NL \<notin> set padding" "NUL \<notin> set padding" "length padding = LINE_BUFFER - 1"
  by (simp_all add: padding_def NL_def NUL_def LINE_BUFFER_def)

lemma scenario_A_record_line: "record_line ''CA'' scenario_A_line"
  unfolding scenario_A_line_def by code_simp

theorem long_line_tail_witness:
  "NL \<notin> set padding \<and> NUL \<notin> set padding \<and> length padding = LINE_BUFFER - 1 \<and>
   record_line ''CA'' scenario_A_line \<and>
   while_loop (padding @ scenario_A_line @ []) (initial_world 50) 0 = Next world_CA 1"
proof -
  have "while_loop (scenario_A_line @ []) (initial_world 50) 0 = while_loop [] world_CA 1"
    using long_line_tail [OF padding_facts scenario_A_record_line, of "[]" "initial_world 50" 0]
    by (simp add: first_iteration)
  moreover have "while_loop [] world_CA 1 = Next world_CA 1"
    by (rule while_loop_eof) (simp add: fgets_def)
  ultimately show ?thesis
    using long_line_tail [OF padding_facts scenario_A_record_line, of "[]" "initial_world 50" 0]
      padding_facts scenario_A_record_line
    by simp
qed

end
